theory Spec2Isabelle
  imports Main
begin

section \<open>Elements, slots and failures\<close>

text \<open>
  The development embeds \<^verbatim>\<open>vector.h\<close>: the class templates \<^verbatim>\<open>RawMemory<T>\<close> and
  \<^verbatim>\<open>Vector<T>\<close>.

  A block of raw memory is a list of slots. A slot either holds no object (\<open>Raw\<close>:
  freshly allocated memory, or memory whose object was destroyed) or a live object of
  the element type (\<open>Live x\<close>).

  Conventions of the embedding:
  \<^item> a count of elements (\<^verbatim>\<open>size_\<close>, \<^verbatim>\<open>capacity_\<close>, an index) is a \<open>nat\<close>. The one
    product that the source computes in \<^verbatim>\<open>size_t\<close>, the request \<^verbatim>\<open>n * sizeof(T)\<close> of
    \<^verbatim>\<open>Allocate\<close>, wraps at \<open>2 ^ 64\<close> and is kept with the block. The doubling
    \<^verbatim>\<open>Capacity() * 2\<close> wraps only from \<open>2 ^ 63\<close> slots on and is left unbounded, and
    \<^verbatim>\<open>size_ - 1\<close> at size 0 is written out where it occurs.
  \<^item> \<^verbatim>\<open>operator new\<close> is taken to succeed, and the operations of the element type
    (construction, assignment, destruction) are taken not to throw; the handlers of
    \<^verbatim>\<open>EmplaceWithReallocation\<close> and \<^verbatim>\<open>EmplaceWithoutReallocation\<close>, which only run
    when an element operation throws, therefore have no branch here.
  \<^item> a failed \<^verbatim>\<open>assert\<close> and a thrown \<^verbatim>\<open>std::out_of_range\<close> are values of type
    \<open>error\<close>; a function that can fail returns \<open>error + 'r\<close>.
  \<^item> a \<^verbatim>\<open>T*\<close>, an iterator or a \<^verbatim>\<open>T&\<close> is an address, counted in slots; address 0 is
    \<^verbatim>\<open>nullptr\<close>. A block starts at the address that its allocation returned, so a
    pointer into a block that has been replaced is not a pointer into the new one.
  \<^item> constructing an object in a slot makes the slot \<open>Live\<close> whatever it held.
    Assigning to a slot needs an object there, unless the destructor of \<^verbatim>\<open>T\<close> is
    trivial: see \<open>assign_into\<close>.
    Copying or moving out of a slot that holds no object yields \<open>Raw\<close> again, so that a
    missing element stays visible wherever it is transferred.
  \<^item> an index outside its block has no meaning in C++. Here a read there yields \<open>Raw\<close>
    and a write there changes nothing; the operations use no such index on a vector
    whose size is within its capacity.
\<close>

datatype error = OutOfRange | AssertionFailed

datatype 'a slot = Raw | Live 'a

text \<open>
  What the container needs to know of its element type \<^verbatim>\<open>T\<close>: the value of \<^verbatim>\<open>T()\<close>,
  the state a moved-from object is left in, the two traits that \<^verbatim>\<open>MoveOrCopyRange\<close>
  tests, whether the destructor is trivial, and \<^verbatim>\<open>sizeof(T)\<close>.
\<close>

record 'a elem_type =
  value_init :: 'a
  moved_from :: "'a \<Rightarrow> 'a"
  is_nothrow_move_constructible :: bool
  is_copy_constructible :: bool
  is_trivially_destructible :: bool
  sizeof_T :: nat

definition and_then :: "error + 'a \<Rightarrow> ('a \<Rightarrow> error + 'b) \<Rightarrow> error + 'b" where
  "and_then r f = (case r of Inl e \<Rightarrow> Inl e | Inr x \<Rightarrow> f x)"

definition slot_at :: "'a slot list \<Rightarrow> nat \<Rightarrow> 'a slot" where
  "slot_at buf i = (if i < length buf then buf ! i else Raw)"

definition moved :: "'a elem_type \<Rightarrow> 'a slot \<Rightarrow> 'a slot" where
  "moved T s = (case s of Raw \<Rightarrow> Raw | Live x \<Rightarrow> Live (moved_from T x))"

definition construct_at :: "'a slot list \<Rightarrow> nat \<Rightarrow> 'a \<Rightarrow> 'a slot list" where
  "construct_at buf p x = buf[p := Live x]"

text \<open>
  Assignment needs an object to assign to. Where the target slot holds none, a \<^verbatim>\<open>T\<close>
  with a trivial destructor (an \<^verbatim>\<open>int\<close>) simply receives the value; for any other
  \<^verbatim>\<open>T\<close> the call of \<^verbatim>\<open>operator=\<close> on the missing object is undefined behaviour and
  creates no object: the slot stays \<open>Raw\<close>.
\<close>

definition assign_into :: "'a elem_type \<Rightarrow> 'a slot \<Rightarrow> 'a slot \<Rightarrow> 'a slot" where
  "assign_into T target s =
     (case target of Raw \<Rightarrow> (if is_trivially_destructible T then s else Raw) | Live y \<Rightarrow> s)"

definition assign_at :: "'a elem_type \<Rightarrow> 'a slot list \<Rightarrow> nat \<Rightarrow> 'a \<Rightarrow> 'a slot list" where
  "assign_at T buf p x = buf[p := assign_into T (slot_at buf p) (Live x)]"

definition destroy_at :: "'a slot list \<Rightarrow> nat \<Rightarrow> 'a slot list" where
  "destroy_at buf p = buf[p := Raw]"

text \<open>
  The object in slot \<open>q\<close> is moved into slot \<open>p\<close> of the same block: by move construction,
  \<^verbatim>\<open>new (p) T(std::move(*q))\<close>, which builds an object in \<open>p\<close> whatever \<open>p\<close> held, or by
  move assignment, \<^verbatim>\<open>*p = std::move(*q)\<close>. Slot \<open>q\<close> is left moved-from.
\<close>

definition move_construct_into :: "'a elem_type \<Rightarrow> 'a slot list \<Rightarrow> nat \<Rightarrow> nat \<Rightarrow> 'a slot list" where
  "move_construct_into T buf p q = buf[q := moved T (slot_at buf q), p := slot_at buf q]"

definition move_assign_into :: "'a elem_type \<Rightarrow> 'a slot list \<Rightarrow> nat \<Rightarrow> nat \<Rightarrow> 'a slot list" where
  "move_assign_into T buf p q =
     buf[q := moved T (slot_at buf q), p := assign_into T (slot_at buf p) (slot_at buf q)]"

section \<open>The standard algorithms the container calls\<close>

text \<open>
  Each algorithm is the loop of the standard library, over the indices of the slots in
  their block: the container turns each pointer it passes into the index of its slot
  (\<open>slot_index\<close>, defined with the blocks). The ones that
  read one block and write another take both blocks; \<^verbatim>\<open>std::move\<close> and
  \<^verbatim>\<open>std::move_backward\<close> work inside one block, where the order of the steps matters.
\<close>

fun uninitialized_value_construct_n :: "'a elem_type \<Rightarrow> 'a slot list \<Rightarrow> nat \<Rightarrow> nat \<Rightarrow> 'a slot list" where
  "uninitialized_value_construct_n T buf first 0 = buf"
| "uninitialized_value_construct_n T buf first (Suc n) =
     uninitialized_value_construct_n T (construct_at buf first (value_init T)) (Suc first) n"

fun uninitialized_copy_n :: "'a slot list \<Rightarrow> nat \<Rightarrow> nat \<Rightarrow> 'a slot list \<Rightarrow> nat \<Rightarrow> 'a slot list" where
  "uninitialized_copy_n src first 0 dst d_first = dst"
| "uninitialized_copy_n src first (Suc n) dst d_first =
     uninitialized_copy_n src (Suc first) n (dst[d_first := slot_at src first]) (Suc d_first)"

fun copy_n :: "'a slot list \<Rightarrow> nat \<Rightarrow> nat \<Rightarrow> 'a slot list \<Rightarrow> nat \<Rightarrow> 'a slot list" where
  "copy_n src first 0 dst d_first = dst"
| "copy_n src first (Suc n) dst d_first =
     copy_n src (Suc first) n (dst[d_first := slot_at src first]) (Suc d_first)"

fun uninitialized_move_n ::
  "'a elem_type \<Rightarrow> 'a slot list \<Rightarrow> nat \<Rightarrow> nat \<Rightarrow> 'a slot list \<Rightarrow> nat \<Rightarrow> 'a slot list \<times> 'a slot list" where
  "uninitialized_move_n T src first 0 dst d_first = (src, dst)"
| "uninitialized_move_n T src first (Suc n) dst d_first =
     uninitialized_move_n T (src[first := moved T (slot_at src first)]) (Suc first) n
       (dst[d_first := slot_at src first]) (Suc d_first)"

fun destroy_n :: "'a slot list \<Rightarrow> nat \<Rightarrow> nat \<Rightarrow> 'a slot list" where
  "destroy_n buf first 0 = buf"
| "destroy_n buf first (Suc n) = destroy_n (destroy_at buf first) (Suc first) n"

text \<open>
  \<^verbatim>\<open>std::move(first, last, d_first)\<close>: front to back, \<^verbatim>\<open>*d_first++ = std::move(*first++)\<close>.
\<close>

fun move_steps :: "'a elem_type \<Rightarrow> 'a slot list \<Rightarrow> nat \<Rightarrow> nat \<Rightarrow> nat \<Rightarrow> 'a slot list" where
  "move_steps T buf first 0 d_first = buf"
| "move_steps T buf first (Suc n) d_first =
     move_steps T (move_assign_into T buf d_first first) (Suc first) n (Suc d_first)"

definition std_move :: "'a elem_type \<Rightarrow> 'a slot list \<Rightarrow> nat \<Rightarrow> nat \<Rightarrow> nat \<Rightarrow> 'a slot list" where
  "std_move T buf first last' d_first = move_steps T buf first (last' - first) d_first"

text \<open>
  \<^verbatim>\<open>std::move_backward(first, last, d_last)\<close>: back to front,
  \<^verbatim>\<open>*(--d_last) = std::move(*(--last))\<close>.
\<close>

fun move_backward_steps :: "'a elem_type \<Rightarrow> 'a slot list \<Rightarrow> nat \<Rightarrow> nat \<Rightarrow> nat \<Rightarrow> 'a slot list" where
  "move_backward_steps T buf 0 last' d_last = buf"
| "move_backward_steps T buf (Suc n) last' d_last =
     move_backward_steps T (move_assign_into T buf (d_last - 1) (last' - 1)) n (last' - 1) (d_last - 1)"

definition move_backward :: "'a elem_type \<Rightarrow> 'a slot list \<Rightarrow> nat \<Rightarrow> nat \<Rightarrow> nat \<Rightarrow> 'a slot list" where
  "move_backward T buf first last' d_last = move_backward_steps T buf (last' - first) last' d_last"

section \<open>RawMemory\<close>

text \<open>
  A \<^verbatim>\<open>RawMemory<T>\<close> holds the pointer \<^verbatim>\<open>buffer_\<close> and \<^verbatim>\<open>capacity_\<close>. The record keeps
  the pointer as an \<open>address\<close> (0 is \<^verbatim>\<open>nullptr\<close>) and, beside it, what is found there:
  \<open>buffer\<close>, the memory from that address on, as many slots as the code addresses
  through the pointer; \<open>block_bytes\<close>, the number of bytes that \<^verbatim>\<open>operator new\<close> was asked
  for, so the extent of the allocation; and \<open>slot_bytes\<close>, the \<^verbatim>\<open>sizeof(T)\<close> it was
  requested with. The request \<^verbatim>\<open>n * sizeof(T)\<close> is computed in \<^verbatim>\<open>size_t\<close> and wraps.

  \<^verbatim>\<open>operator new\<close> returns an address outside every live block. The allocating
  functions take the address they are given as an argument; their callers pass
  \<open>fresh m\<close>, the first address beyond the block \<open>m\<close> that the caller holds at the
  call, so that the new block of a vector never has the address of the block it
  replaces. Addresses of blocks of two different vectors are never compared, and
  nothing is assumed about them.
\<close>

text \<open>
  \<^verbatim>\<open>size_t\<close> is 64 bits wide: \<open>size_t_wrap k\<close> is \<open>k mod 2 ^ 64\<close>, taken bit by bit so that
  it evaluates on the small numbers of the examples.
\<close>

fun low_bits :: "nat \<Rightarrow> nat \<Rightarrow> nat" where
  "low_bits 0 k = 0"
| "low_bits (Suc w) k = k mod 2 + 2 * low_bits w (k div 2)"

definition size_t_wrap :: "nat \<Rightarrow> nat" where
  "size_t_wrap k = low_bits 64 k"

record 'a RawMemory =
  buffer :: "'a slot list"
  capacity :: nat
  address :: nat
  block_bytes :: nat
  slot_bytes :: nat

definition Allocate :: "nat \<Rightarrow> nat \<Rightarrow> nat \<Rightarrow> 'a RawMemory" where
  "Allocate sz new_address n =
     (if n \<noteq> 0
      then \<lparr>buffer = replicate n Raw, capacity = 0, address = new_address,
            block_bytes = size_t_wrap (n * sz), slot_bytes = sz\<rparr>
      else \<lparr>buffer = [], capacity = 0, address = 0, block_bytes = 0, slot_bytes = 0\<rparr>)"

definition RawMemory_default :: "'a RawMemory" where
  "RawMemory_default = \<lparr>buffer = [], capacity = 0, address = 0, block_bytes = 0, slot_bytes = 0\<rparr>"

definition RawMemory_sized :: "nat \<Rightarrow> nat \<Rightarrow> nat \<Rightarrow> 'a RawMemory" where
  "RawMemory_sized sz new_address n = (Allocate sz new_address n)\<lparr>capacity := n\<rparr>"

definition fresh :: "'a RawMemory \<Rightarrow> nat" where
  "fresh m = address m + capacity m + 1"

text \<open>The move constructor: the new block, and the source as it is left.\<close>

definition RawMemory_move :: "'a RawMemory \<Rightarrow> 'a RawMemory \<times> 'a RawMemory" where
  "RawMemory_move other =
     (\<lparr>buffer = buffer other, capacity = capacity other, address = address other,
       block_bytes = block_bytes other, slot_bytes = slot_bytes other\<rparr>,
      other\<lparr>buffer := [], capacity := 0, address := 0, block_bytes := 0, slot_bytes := 0\<rparr>)"

definition GetAddress :: "'a RawMemory \<Rightarrow> nat" where
  "GetAddress m = address m"

text \<open>
  The slot of the block that a pointer into it designates. The container only turns
  pointers into indices that are at or beyond the start of the block: \<^verbatim>\<open>begin()\<close> plus
  a count, or a position that has passed the assertion of \<^verbatim>\<open>Emplace\<close> or \<^verbatim>\<open>Erase\<close>.
\<close>

definition slot_index :: "'a RawMemory \<Rightarrow> nat \<Rightarrow> nat" where
  "slot_index m p = p - address m"

definition RawMemory_plus :: "'a RawMemory \<Rightarrow> nat \<Rightarrow> error + nat" where
  "RawMemory_plus m offset =
     (if offset \<le> capacity m then Inr (GetAddress m + offset) else Inl AssertionFailed)"

definition RawMemory_index :: "'a RawMemory \<Rightarrow> nat \<Rightarrow> error + nat" where
  "RawMemory_index m index =
     (if index < capacity m then Inr (GetAddress m + index) else Inl AssertionFailed)"

definition RawMemory_Swap :: "'a RawMemory \<Rightarrow> 'a RawMemory \<Rightarrow> 'a RawMemory \<times> 'a RawMemory" where
  "RawMemory_Swap m other =
     (m\<lparr>buffer := buffer other, capacity := capacity other, address := address other,
        block_bytes := block_bytes other, slot_bytes := slot_bytes other\<rparr>,
      other\<lparr>buffer := buffer m, capacity := capacity m, address := address m,
        block_bytes := block_bytes m, slot_bytes := slot_bytes m\<rparr>)"

definition RawMemory_Capacity :: "'a RawMemory \<Rightarrow> nat" where
  "RawMemory_Capacity m = capacity m"

section \<open>Vector\<close>

record 'a Vector =
  data :: "'a RawMemory"
  size_m :: nat

definition Vector_begin :: "'a Vector \<Rightarrow> nat" where
  "Vector_begin v = GetAddress (data v)"

definition Vector_end :: "'a Vector \<Rightarrow> nat" where
  "Vector_end v = GetAddress (data v) + size_m v"

definition Size :: "'a Vector \<Rightarrow> nat" where
  "Size v = size_m v"

definition Capacity :: "'a Vector \<Rightarrow> nat" where
  "Capacity v = RawMemory_Capacity (data v)"

definition Empty :: "'a Vector \<Rightarrow> bool" where
  "Empty v = (size_m v = 0)"

text \<open>
  The slots a vector stands for, \<^verbatim>\<open>[begin(), end())\<close>, and the slot behind a pointer: a
  pointer that does not point into the block of the vector finds no element there.
\<close>

definition elements :: "'a Vector \<Rightarrow> 'a slot list" where
  "elements v = take (size_m v) (buffer (data v))"

definition deref :: "'a Vector \<Rightarrow> nat \<Rightarrow> 'a slot" where
  "deref v p =
     (if address (data v) \<le> p then slot_at (buffer (data v)) (slot_index (data v) p) else Raw)"

subsection \<open>Constructors\<close>

definition Vector_default :: "'a Vector" where
  "Vector_default = \<lparr>data = RawMemory_default, size_m = 0\<rparr>"

definition Vector_sized :: "'a elem_type \<Rightarrow> nat \<Rightarrow> 'a Vector" where
  "Vector_sized T n =
     (let d = RawMemory_sized (sizeof_T T) (fresh (RawMemory_default :: 'a RawMemory)) n
      in \<lparr>data = d\<lparr>buffer := uninitialized_value_construct_n T (buffer d)
                                 (slot_index d (GetAddress d)) n\<rparr>,
          size_m = n\<rparr>)"

text \<open>
  The copy constructor allocates \<^verbatim>\<open>other.size_\<close> slots of the \<^verbatim>\<open>sizeof(T)\<close> that the
  block of \<open>other\<close> was requested with.
\<close>

definition Vector_copy :: "'a Vector \<Rightarrow> 'a Vector" where
  "Vector_copy other =
     (let d = RawMemory_sized (slot_bytes (data other)) (fresh (data other)) (size_m other)
      in \<lparr>data = d\<lparr>buffer := uninitialized_copy_n (buffer (data other))
                                 (slot_index (data other) (Vector_begin other))
                                 (size_m other) (buffer d) (slot_index d (GetAddress d))\<rparr>,
          size_m = size_m other\<rparr>)"

text \<open>The move constructor: the new vector, and the source as it is left.\<close>

definition Vector_move :: "'a Vector \<Rightarrow> 'a Vector \<times> 'a Vector" where
  "Vector_move other =
     (let (d, od) = RawMemory_move (data other)
      in (\<lparr>data = d, size_m = size_m other\<rparr>, other\<lparr>data := od, size_m := 0\<rparr>))"

definition Swap :: "'a Vector \<Rightarrow> 'a Vector \<Rightarrow> 'a Vector \<times> 'a Vector" where
  "Swap v other =
     (let (d, od) = RawMemory_Swap (data v) (data other)
      in (v\<lparr>data := d, size_m := size_m other\<rparr>, other\<lparr>data := od, size_m := size_m v\<rparr>))"

subsection \<open>Element access\<close>

definition At :: "'a Vector \<Rightarrow> nat \<Rightarrow> error + nat" where
  "At v index = (if index \<ge> size_m v then Inl OutOfRange else RawMemory_index (data v) index)"

definition subscript :: "'a Vector \<Rightarrow> nat \<Rightarrow> error + nat" where
  "subscript v index =
     (if index < size_m v then RawMemory_index (data v) index else Inl AssertionFailed)"

definition Vector_front :: "'a Vector \<Rightarrow> error + nat" where
  "Vector_front v = (if size_m v > 0 then RawMemory_index (data v) 0 else Inl AssertionFailed)"

definition Vector_back :: "'a Vector \<Rightarrow> error + nat" where
  "Vector_back v = (if size_m v > 0 then RawMemory_index (data v) (size_m v - 1) else Inl AssertionFailed)"

subsection \<open>Capacity and size\<close>

definition MoveOrCopyRange ::
  "'a elem_type \<Rightarrow> 'a slot list \<Rightarrow> nat \<Rightarrow> nat \<Rightarrow> 'a slot list \<Rightarrow> nat \<Rightarrow> 'a slot list \<times> 'a slot list" where
  "MoveOrCopyRange T src from_begin from_end dst to_begin =
     (let count = from_end - from_begin
      in if is_nothrow_move_constructible T \<or> \<not> is_copy_constructible T
         then uninitialized_move_n T src from_begin count dst to_begin
         else (src, uninitialized_copy_n src from_begin count dst to_begin))"

definition Reserve :: "'a elem_type \<Rightarrow> 'a Vector \<Rightarrow> nat \<Rightarrow> 'a Vector" where
  "Reserve T v new_capacity =
     (if new_capacity \<le> RawMemory_Capacity (data v) then v
      else
        let new_data = RawMemory_sized (sizeof_T T) (fresh (data v)) new_capacity;
            (old1, new1) = MoveOrCopyRange T (buffer (data v))
                             (slot_index (data v) (Vector_begin v)) (slot_index (data v) (Vector_end v))
                             (buffer new_data) (slot_index new_data (GetAddress new_data));
            old2 = destroy_n old1 (slot_index (data v) (Vector_begin v)) (size_m v);
            (d, nd) = RawMemory_Swap ((data v)\<lparr>buffer := old2\<rparr>) (new_data\<lparr>buffer := new1\<rparr>)
        in v\<lparr>data := d\<rparr>)"

definition Resize :: "'a elem_type \<Rightarrow> 'a Vector \<Rightarrow> nat \<Rightarrow> 'a Vector" where
  "Resize T v new_size =
     (let v1 =
        (if new_size < size_m v
         then v\<lparr>data := (data v)\<lparr>buffer :=
                 destroy_n (buffer (data v)) (slot_index (data v) (Vector_begin v + new_size))
                   (size_m v - new_size)\<rparr>\<rparr>
         else if new_size > size_m v
         then
           let v2 = (if new_size > RawMemory_Capacity (data v) then Reserve T v new_size else v)
           in v2\<lparr>data := (data v2)\<lparr>buffer :=
                 uninitialized_value_construct_n T (buffer (data v2))
                   (slot_index (data v2) (Vector_end v2)) (new_size - size_m v2)\<rparr>\<rparr>
         else v)
      in v1\<lparr>size_m := new_size\<rparr>)"

definition Clear :: "'a Vector \<Rightarrow> 'a Vector" where
  "Clear v =
     v\<lparr>data := (data v)\<lparr>buffer :=
          destroy_n (buffer (data v)) (slot_index (data v) (Vector_begin v)) (size_m v)\<rparr>,
       size_m := 0\<rparr>"

subsection \<open>Insertion and removal\<close>

definition PopBack :: "'a Vector \<Rightarrow> error + 'a Vector" where
  "PopBack v =
     (if \<not> size_m v > 0 then Inl AssertionFailed
      else
        let v1 = v\<lparr>size_m := size_m v - 1\<rparr>
        in and_then (RawMemory_plus (data v1) (size_m v1))
             (\<lambda>p. Inr (v1\<lparr>data := (data v1)\<lparr>buffer :=
                          destroy_at (buffer (data v1)) (slot_index (data v1) p)\<rparr>\<rparr>)))"

text \<open>
  The element to insert is the value \<open>x\<close> that \<^verbatim>\<open>T(std::forward<Args>(args)...)\<close> builds.
  \<^verbatim>\<open>EmplaceWithReallocation\<close> builds it in the new block first, then transfers the
  slots before and after \<open>index\<close>, destroys the old elements and swaps the blocks; the
  old block dies with \<^verbatim>\<open>new_data\<close>.
\<close>

definition EmplaceWithReallocation :: "'a elem_type \<Rightarrow> 'a Vector \<Rightarrow> nat \<Rightarrow> 'a \<Rightarrow> error + 'a Vector" where
  "EmplaceWithReallocation T v index x =
     (let new_capacity = (if Capacity v = 0 then 1 else Capacity v * 2);
          new_data = RawMemory_sized (sizeof_T T) (fresh (data v)) new_capacity
      in and_then (RawMemory_plus new_data index)
           (\<lambda>new_element.
              let new0 = construct_at (buffer new_data) (slot_index new_data new_element) x;
                  (old1, new1) = MoveOrCopyRange T (buffer (data v))
                                   (slot_index (data v) (Vector_begin v))
                                   (slot_index (data v) (Vector_begin v + index))
                                   new0 (slot_index new_data (GetAddress new_data));
                  (old2, new2) = MoveOrCopyRange T old1
                                   (slot_index (data v) (Vector_begin v + index))
                                   (slot_index (data v) (Vector_end v))
                                   new1 (slot_index new_data (GetAddress new_data + index + 1));
                  old3 = destroy_n old2 (slot_index (data v) (Vector_begin v)) (size_m v);
                  (d, nd) = RawMemory_Swap ((data v)\<lparr>buffer := old3\<rparr>) (new_data\<lparr>buffer := new2\<rparr>)
              in Inr (v\<lparr>data := d\<rparr>)))"

text \<open>
  In \<^verbatim>\<open>data_[size_ - 1]\<close> the index wraps to \<^verbatim>\<open>SIZE_MAX\<close> at size 0, which is never below
  the capacity: the assertion of \<^verbatim>\<open>RawMemory::operator[]\<close> fails there.
\<close>

definition EmplaceWithoutReallocation :: "'a elem_type \<Rightarrow> 'a Vector \<Rightarrow> nat \<Rightarrow> 'a \<Rightarrow> error + 'a Vector" where
  "EmplaceWithoutReallocation T v index x =
     (if index = size_m v
      then and_then (RawMemory_plus (data v) (size_m v))
             (\<lambda>p. Inr (v\<lparr>data := (data v)\<lparr>buffer :=
                          construct_at (buffer (data v)) (slot_index (data v) p) x\<rparr>\<rparr>))
      else
        let temp = x
        in and_then (RawMemory_plus (data v) (size_m v))
             (\<lambda>p. and_then (if size_m v = 0 then Inl AssertionFailed
                             else RawMemory_index (data v) (size_m v - 1))
                (\<lambda>q.
                   let b1 = move_construct_into T (buffer (data v))
                              (slot_index (data v) p) (slot_index (data v) q);
                       b2 = move_backward T b1 (slot_index (data v) (Vector_begin v + index))
                              (slot_index (data v) (Vector_end v - 1))
                              (slot_index (data v) (Vector_end v))
                   in and_then (RawMemory_index (data v) index)
                        (\<lambda>r. Inr (v\<lparr>data := (data v)\<lparr>buffer :=
                                     assign_at T b2 (slot_index (data v) r) temp\<rparr>\<rparr>)))))"

definition Emplace :: "'a elem_type \<Rightarrow> 'a Vector \<Rightarrow> nat \<Rightarrow> 'a \<Rightarrow> error + (nat \<times> 'a Vector)" where
  "Emplace T v pos x =
     (if \<not> (pos \<ge> Vector_begin v \<and> pos \<le> Vector_end v) then Inl AssertionFailed
      else
        let index = pos - Vector_begin v
        in and_then (if size_m v = Capacity v
                     then EmplaceWithReallocation T v index x
                     else EmplaceWithoutReallocation T v index x)
             (\<lambda>v1. let v2 = v1\<lparr>size_m := size_m v1 + 1\<rparr> in Inr (Vector_begin v2 + index, v2)))"

definition EmplaceBack :: "'a elem_type \<Rightarrow> 'a Vector \<Rightarrow> 'a \<Rightarrow> error + (nat \<times> 'a Vector)" where
  "EmplaceBack T v x = Emplace T v (Vector_end v) x"

text \<open>
  Both overloads of \<^verbatim>\<open>PushBack\<close> and of \<^verbatim>\<open>Insert\<close> forward to the emplacing function; the
  overload taking \<^verbatim>\<open>T&&\<close> differs only in what it leaves in the caller's object.
\<close>

definition PushBack :: "'a elem_type \<Rightarrow> 'a Vector \<Rightarrow> 'a \<Rightarrow> error + 'a Vector" where
  "PushBack T v x = and_then (EmplaceBack T v x) (\<lambda>(r, v'). Inr v')"

definition Insert :: "'a elem_type \<Rightarrow> 'a Vector \<Rightarrow> nat \<Rightarrow> 'a \<Rightarrow> error + (nat \<times> 'a Vector)" where
  "Insert T v pos x = Emplace T v pos x"

text \<open>
  \<^verbatim>\<open>Erase\<close> destroys the object at the position first and then move-assigns the
  following elements one slot down, the first of them into the slot it has just
  destroyed; the last slot, left moved-from, is not destroyed.
\<close>

definition Erase :: "'a elem_type \<Rightarrow> 'a Vector \<Rightarrow> nat \<Rightarrow> error + (nat \<times> 'a Vector)" where
  "Erase T v pos =
     (if \<not> (pos \<ge> Vector_begin v \<and> pos < Vector_end v) then Inl AssertionFailed
      else
        let mutable_pos = Vector_begin v + (pos - Vector_begin v);
            b1 = destroy_at (buffer (data v)) (slot_index (data v) mutable_pos);
            b2 = (if mutable_pos + 1 \<noteq> Vector_end v
                  then std_move T b1 (slot_index (data v) (mutable_pos + 1))
                         (slot_index (data v) (Vector_end v)) (slot_index (data v) mutable_pos)
                  else b1)
        in Inr (mutable_pos, v\<lparr>data := (data v)\<lparr>buffer := b2\<rparr>, size_m := size_m v - 1\<rparr>))"

subsection \<open>Assignment and swap between objects\<close>

text \<open>
  The assignment operators compare the addresses of their two operands, so they are
  given on a store: the vectors of the program by address. The temporary of the
  copy-and-swap branch is an object outside the store; it is destroyed, with the old
  block, when the statement ends. The copy assignment of elements in \<^verbatim>\<open>std::copy_n\<close>
  overwrites its target slot as for a trivially destructible \<^verbatim>\<open>T\<close>.
\<close>

type_synonym 'a store = "nat \<Rightarrow> 'a Vector"

definition Swap_at :: "'a store \<Rightarrow> nat \<Rightarrow> nat \<Rightarrow> 'a store" where
  "Swap_at s this other = (let (a, b) = Swap (s this) (s other) in (s(this := a))(other := b))"

definition copy_assign :: "'a store \<Rightarrow> nat \<Rightarrow> nat \<Rightarrow> 'a store" where
  "copy_assign s this rhs =
     (let s1 =
        (if this \<noteq> rhs then
           (if size_m (s rhs) > RawMemory_Capacity (data (s this)) then
              let (tmp, self) = Swap (Vector_copy (s rhs)) (s this)
              in s(this := self)
            else
              let i = 0;
                  common_size = min (size_m (s this)) (size_m (s rhs));
                  b1 = copy_n (buffer (data (s rhs))) (slot_index (data (s rhs)) (Vector_begin (s rhs)))
                         common_size
                         (buffer (data (s this))) (slot_index (data (s this)) (Vector_begin (s this)));
                  b2 = (if size_m (s this) < size_m (s rhs)
                        then uninitialized_copy_n (buffer (data (s rhs)))
                               (slot_index (data (s rhs)) (Vector_begin (s rhs) + i))
                               (size_m (s rhs) - size_m (s this)) b1
                               (slot_index (data (s this)) (Vector_begin (s this) + i))
                        else destroy_n b1
                               (slot_index (data (s this)) (Vector_begin (s this) + size_m (s rhs)))
                               (size_m (s this) - size_m (s rhs)))
              in s(this := (s this)\<lparr>data := (data (s this))\<lparr>buffer := b2\<rparr>\<rparr>))
         else s)
      in s1(this := (s1 this)\<lparr>size_m := size_m (s1 rhs)\<rparr>))"

definition move_assign :: "'a store \<Rightarrow> nat \<Rightarrow> nat \<Rightarrow> 'a store" where
  "move_assign s this rhs = (if this \<noteq> rhs then Swap_at s this rhs else s)"

subsection \<open>Two element types\<close>

text \<open>
  \<^verbatim>\<open>int\<close>, four bytes wide, and \<^verbatim>\<open>std::string\<close>, whose destructor is not trivial and
  whose moved-from state is the empty string.
\<close>

definition int_type :: "int elem_type" where
  "int_type = \<lparr>value_init = 0, moved_from = (\<lambda>x. x),
                is_nothrow_move_constructible = True, is_copy_constructible = True,
                is_trivially_destructible = True, sizeof_T = 4\<rparr>"

definition string_type :: "string elem_type" where
  "string_type = \<lparr>value_init = [], moved_from = (\<lambda>x. []),
                   is_nothrow_move_constructible = True, is_copy_constructible = True,
                   is_trivially_destructible = False, sizeof_T = 32\<rparr>"

section \<open>Well-formed vectors and reachable stores\<close>

text \<open>
  A vector is well formed when its block has as many slots as its capacity says and its
  size is within the capacity. Its elements are all live when every slot of
  \<^verbatim>\<open>[begin(), end())\<close> holds an object. A slot can be assigned to when it holds an
  object or the destructor of \<^verbatim>\<open>T\<close> is trivial.
\<close>

definition well_formed :: "'a Vector \<Rightarrow> bool" where
  "well_formed v = (length (buffer (data v)) = capacity (data v) \<and> size_m v \<le> capacity (data v))"

definition is_live :: "'a slot \<Rightarrow> bool" where
  "is_live s = (case s of Raw \<Rightarrow> False | Live x \<Rightarrow> True)"

definition writable :: "'a elem_type \<Rightarrow> 'a slot \<Rightarrow> bool" where
  "writable T s = (is_trivially_destructible T \<or> is_live s)"

definition all_live :: "'a Vector \<Rightarrow> bool" where
  "all_live v = list_all is_live (elements v)"


text \<open>
  The stores a program can reach with the public operations, starting with every
  object default-constructed. A constructor builds its object at an address \<open>a\<close>; an
  operation whose assertion fails ends the program, so it reaches nothing.
\<close>

inductive reachable :: "'a elem_type \<Rightarrow> 'a store \<Rightarrow> bool" for T :: "'a elem_type" where
  start: "reachable T (\<lambda>a. Vector_default)"
| construct_sized: "reachable T s \<Longrightarrow> reachable T (s(a := Vector_sized T n))"
| construct_copy: "reachable T s \<Longrightarrow> a \<noteq> b \<Longrightarrow> reachable T (s(a := Vector_copy (s b)))"
| construct_move: "reachable T s \<Longrightarrow> a \<noteq> b \<Longrightarrow>
     reachable T (s(a := fst (Vector_move (s b)), b := snd (Vector_move (s b))))"
| assign_copy: "reachable T s \<Longrightarrow> reachable T (copy_assign s a b)"
| assign_move: "reachable T s \<Longrightarrow> reachable T (move_assign s a b)"
| swap: "reachable T s \<Longrightarrow> reachable T (Swap_at s a b)"
| reserve: "reachable T s \<Longrightarrow> reachable T (s(a := Reserve T (s a) n))"
| resize: "reachable T s \<Longrightarrow> reachable T (s(a := Resize T (s a) n))"
| clear: "reachable T s \<Longrightarrow> reachable T (s(a := Clear (s a)))"
| push_back: "reachable T s \<Longrightarrow> PushBack T (s a) x = Inr v \<Longrightarrow> reachable T (s(a := v))"
| emplace_back: "reachable T s \<Longrightarrow> EmplaceBack T (s a) x = Inr (p, v) \<Longrightarrow> reachable T (s(a := v))"
| pop_back: "reachable T s \<Longrightarrow> PopBack (s a) = Inr v \<Longrightarrow> reachable T (s(a := v))"
| emplace: "reachable T s \<Longrightarrow> Emplace T (s a) pos x = Inr (p, v) \<Longrightarrow> reachable T (s(a := v))"
| insert: "reachable T s \<Longrightarrow> Insert T (s a) pos x = Inr (p, v) \<Longrightarrow> reachable T (s(a := v))"
| erase: "reachable T s \<Longrightarrow> Erase T (s a) pos = Inr (p, v) \<Longrightarrow> reachable T (s(a := v))"

text \<open>\<open>K\<close> end-insertions in a row: the elements of a list pushed one after the other.\<close>

fun push_all :: "'a elem_type \<Rightarrow> 'a Vector \<Rightarrow> 'a list \<Rightarrow> error + 'a Vector" where
  "push_all T v [] = Inr v"
| "push_all T v (x # xs) = and_then (PushBack T v x) (\<lambda>v'. push_all T v' xs)"

text \<open>
  The capacities that end-insertions from an empty vector pass through: none yet, or a
  power of two that is less than twice the size.
\<close>

definition doubled :: "'a Vector \<Rightarrow> bool" where
  "doubled v = (well_formed v \<and> (size_m v = 0 \<and> capacity (data v) = 0
                      \<or> (\<exists>n. capacity (data v) = 2 ^ n) \<and> capacity (data v) < 2 * size_m v))"

section \<open>The work of the two constructors from a vector\<close>






section \<open>Properties of the standard algorithms\<close>



lemma length_uninitialized_value_construct_n [simp]:
  "length (uninitialized_value_construct_n T buf first n) = length buf"
  by (induction n arbitrary: buf first) (simp_all add: construct_at_def)

lemma length_uninitialized_copy_n [simp]:
  "length (uninitialized_copy_n src first n dst d_first) = length dst"
  by (induction n arbitrary: first dst d_first) simp_all

lemma length_copy_n [simp]:
  "length (copy_n src first n dst d_first) = length dst"
  by (induction n arbitrary: first dst d_first) simp_all

lemma length_destroy_n [simp]: "length (destroy_n buf first n) = length buf"
  by (induction n arbitrary: buf first) (simp_all add: destroy_at_def)

lemma length_uninitialized_move_n [simp]:
  "length (fst (uninitialized_move_n T src first n dst d_first)) = length src"
  "length (snd (uninitialized_move_n T src first n dst d_first)) = length dst"
  by (induction n arbitrary: src first dst d_first) simp_all

lemma length_move_construct_into [simp]: "length (move_construct_into T buf p q) = length buf"
  by (simp add: move_construct_into_def)

lemma length_move_assign_into [simp]: "length (move_assign_into T buf p q) = length buf"
  by (simp add: move_assign_into_def)

lemma length_assign_at [simp]: "length (assign_at T buf p x) = length buf"
  by (simp add: assign_at_def)

lemma assign_into_writable: "writable T t \<Longrightarrow> assign_into T t s = s"
  by (cases t) (simp_all add: writable_def assign_into_def is_live_def)

lemma writable_moved [simp]: "writable T (moved T s) = writable T s"
  by (cases s) (simp_all add: writable_def moved_def is_live_def)

lemma move_assign_into_writable:
  "writable T (slot_at buf p) \<Longrightarrow>
   move_assign_into T buf p q = buf[q := moved T (slot_at buf q), p := slot_at buf q]"
  by (simp add: move_assign_into_def assign_into_writable)

lemma length_move_steps [simp]: "length (move_steps T buf first n d_first) = length buf"
  by (induction n arbitrary: buf first d_first) simp_all

lemma length_move_backward_steps [simp]:
  "length (move_backward_steps T buf n last' d_last) = length buf"
  by (induction n arbitrary: buf last' d_last) simp_all

lemma nth_uninitialized_value_construct_n:
  "i < length buf \<Longrightarrow>
   uninitialized_value_construct_n T buf first n ! i =
     (if first \<le> i \<and> i < first + n then Live (value_init T) else buf ! i)"
  by (induction n arbitrary: buf first) (auto simp: construct_at_def nth_list_update)

lemma nth_uninitialized_copy_n:
  "i < length dst \<Longrightarrow>
   uninitialized_copy_n src first n dst d_first ! i =
     (if d_first \<le> i \<and> i < d_first + n then slot_at src (first + (i - d_first)) else dst ! i)"
proof (induction n arbitrary: first dst d_first)
  case 0
  then show ?case by auto
next
  case (Suc n)
  have len: "i < length (dst[d_first := slot_at src first])"
    using Suc.prems by simp
  have shift: "Suc first + (i - Suc d_first) = first + (i - d_first)" if "Suc d_first \<le> i"
    using that by arith
  show ?case
  proof (cases "Suc d_first \<le> i")
    case True
    then show ?thesis
      using Suc.IH [OF len, of "Suc first" "Suc d_first"] shift by simp
  next
    case False
    then show ?thesis
      using Suc.IH [OF len, of "Suc first" "Suc d_first"] Suc.prems
      by (cases "i = d_first") auto
  qed
qed

lemma nth_copy_n:
  "i < length dst \<Longrightarrow>
   copy_n src first n dst d_first ! i =
     (if d_first \<le> i \<and> i < d_first + n then slot_at src (first + (i - d_first)) else dst ! i)"
proof (induction n arbitrary: first dst d_first)
  case 0
  then show ?case by auto
next
  case (Suc n)
  have len: "i < length (dst[d_first := slot_at src first])"
    using Suc.prems by simp
  have shift: "Suc first + (i - Suc d_first) = first + (i - d_first)" if "Suc d_first \<le> i"
    using that by arith
  show ?case
  proof (cases "Suc d_first \<le> i")
    case True
    then show ?thesis
      using Suc.IH [OF len, of "Suc first" "Suc d_first"] shift by simp
  next
    case False
    then show ?thesis
      using Suc.IH [OF len, of "Suc first" "Suc d_first"] Suc.prems
      by (cases "i = d_first") auto
  qed
qed

lemma nth_destroy_n:
  "i < length buf \<Longrightarrow>
   destroy_n buf first n ! i = (if first \<le> i \<and> i < first + n then Raw else buf ! i)"
  by (induction n arbitrary: buf first) (auto simp: destroy_at_def nth_list_update)

lemma slot_at_update_other: "j \<noteq> i \<Longrightarrow> slot_at (buf[i := s]) j = slot_at buf j"
  by (simp add: slot_at_def)

lemma nth_snd_uninitialized_move_n:
  "i < length dst \<Longrightarrow>
   snd (uninitialized_move_n T src first n dst d_first) ! i =
     (if d_first \<le> i \<and> i < d_first + n then slot_at src (first + (i - d_first)) else dst ! i)"
proof (induction n arbitrary: src first dst d_first)
  case 0
  then show ?case by auto
next
  case (Suc n)
  let ?src = "src[first := moved T (slot_at src first)]"
  have len: "i < length (dst[d_first := slot_at src first])"
    using Suc.prems by simp
  have shift: "Suc first + (i - Suc d_first) = first + (i - d_first)" if "Suc d_first \<le> i"
    using that by arith
  have same: "slot_at ?src (Suc first + k) = slot_at src (Suc first + k)" for k
    by (simp add: slot_at_def)
  show ?case
  proof (cases "Suc d_first \<le> i")
    case True
    then show ?thesis
      using Suc.IH [OF len, of ?src "Suc first" "Suc d_first"] shift [OF True]
        same [of "i - Suc d_first"] by simp
  next
    case False
    then show ?thesis
      using Suc.IH [OF len, of ?src "Suc first" "Suc d_first"] Suc.prems
      by (cases "i = d_first") auto
  qed
qed

lemma nth_fst_uninitialized_move_n:
  "i < length src \<Longrightarrow>
   fst (uninitialized_move_n T src first n dst d_first) ! i =
     (if first \<le> i \<and> i < first + n then moved T (src ! i) else src ! i)"
proof (induction n arbitrary: src first dst d_first)
  case 0
  then show ?case by auto
next
  case (Suc n)
  let ?src = "src[first := moved T (slot_at src first)]"
  have len: "i < length ?src"
    using Suc.prems by simp
  note IH = Suc.IH [OF len, of "Suc first" "dst[d_first := slot_at src first]" "Suc d_first"]
  show ?case
  proof (cases "i = first")
    case True
    then show ?thesis using IH Suc.prems by (simp add: slot_at_def)
  next
    case False
    then show ?thesis using IH Suc.prems by auto
  qed
qed

lemma nth_move_steps_left:
  "is_trivially_destructible T \<Longrightarrow> d + n < length buf \<Longrightarrow> i < length buf \<Longrightarrow>
   move_steps T buf (Suc d) n d ! i =
     (if d \<le> i \<and> i < d + n then buf ! Suc i
      else if i = d + n \<and> 0 < n then moved T (buf ! i) else buf ! i)"
  by (induction n arbitrary: buf d)
     (auto simp: move_assign_into_writable writable_def nth_list_update slot_at_def)

lemma nth_move_backward_steps_right:
  "n \<le> l \<Longrightarrow> l < length buf \<Longrightarrow> i < length buf \<Longrightarrow>
   (\<And>j. l - n < j \<Longrightarrow> j \<le> l \<Longrightarrow> writable T (buf ! j)) \<Longrightarrow>
   move_backward_steps T buf n l (Suc l) ! i =
     (if l - n < i \<and> i \<le> l then buf ! (i - 1)
      else if i = l - n \<and> 0 < n then moved T (buf ! i) else buf ! i)"
proof (induction n arbitrary: buf l)
  case 0
  then show ?case by auto
next
  case (Suc n)
  let ?buf = "move_assign_into T buf l (l - 1)"
  from Suc.prems obtain m where l: "l = Suc m"
    by (cases l) simp_all
  have "l - Suc n < l"
    using l by simp
  then have "writable T (buf ! l)"
    by (rule Suc.prems(4)) simp
  then have "writable T (slot_at buf l)"
    using Suc.prems(2) by (simp add: slot_at_def)
  then have b: "?buf = buf[m := moved T (buf ! m), Suc m := buf ! m]"
    using Suc.prems l by (simp add: move_assign_into_writable slot_at_def)
  have b': "move_assign_into T buf (Suc m) m = buf[m := moved T (buf ! m), Suc m := buf ! m]"
    using b l by simp
  have w: "writable T (?buf ! j)" if "m - n < j" "j \<le> m" for j
  proof (cases "j = m")
    case True
    then have "l - Suc n < m" "m \<le> l"
      using that l Suc.prems(1) by arith+
    then have "writable T (buf ! m)"
      by (rule Suc.prems(4))
    then show ?thesis
      using True Suc.prems(1-3) l by (simp add: b')
  next
    case False
    have "l - Suc n < j" "j \<le> l"
      using that l by arith+
    then have "writable T (buf ! j)"
      by (rule Suc.prems(4))
    then show ?thesis
      using False that Suc.prems(1-3) l by (simp add: b')
  qed
  have IH: "move_backward_steps T ?buf n m (Suc m) ! i =
     (if m - n < i \<and> i \<le> m then ?buf ! (i - 1)
      else if i = m - n \<and> 0 < n then moved T (?buf ! i) else ?buf ! i)"
    using Suc.prems l w by (intro Suc.IH) simp_all
  consider "i = Suc m" | "i = m" | "i < m" | "Suc m < i"
    by arith
  then show ?case
  proof cases
    case 1
    then show ?thesis using IH b Suc.prems(1-3) l by (auto simp: nth_list_update)
  next
    case 2
    then show ?thesis using IH b Suc.prems(1-3) l by (cases n) auto
  next
    case 3
    then show ?thesis using IH b Suc.prems(1-3) l by (auto simp: nth_list_update)
  next
    case 4
    then show ?thesis using IH b Suc.prems(1-3) l by (auto simp: nth_list_update)
  qed
qed

section \<open>Unfolding the accessors\<close>

lemmas raw_defs = RawMemory_sized_def RawMemory_default_def Allocate_def GetAddress_def
  RawMemory_plus_def RawMemory_index_def RawMemory_Swap_def RawMemory_Capacity_def
  RawMemory_move_def slot_index_def fresh_def

lemmas vec_defs = Vector_begin_def Vector_end_def Size_def Capacity_def elements_def deref_def
  Vector_default_def

section \<open>What the operations compute\<close>

subsection \<open>Reserve\<close>

lemma length_MoveOrCopyRange [simp]:
  "length (fst (MoveOrCopyRange T src fb fe dst tb)) = length src"
  "length (snd (MoveOrCopyRange T src fb fe dst tb)) = length dst"
  by (simp_all add: MoveOrCopyRange_def Let_def)

lemma nth_snd_MoveOrCopyRange:
  "i < length dst \<Longrightarrow>
   snd (MoveOrCopyRange T src fb fe dst tb) ! i =
     (if tb \<le> i \<and> i < tb + (fe - fb) then slot_at src (fb + (i - tb)) else dst ! i)"
  by (simp add: MoveOrCopyRange_def Let_def nth_snd_uninitialized_move_n nth_uninitialized_copy_n)

lemma slot_at_fst_MoveOrCopyRange:
  "j < fb \<or> fe \<le> j \<Longrightarrow> slot_at (fst (MoveOrCopyRange T src fb fe dst tb)) j = slot_at src j"
  by (auto simp: MoveOrCopyRange_def Let_def slot_at_def nth_fst_uninitialized_move_n)

lemma Reserve_keep: "new_capacity \<le> capacity (data v) \<Longrightarrow> Reserve T v new_capacity = v"
  by (simp add: Reserve_def RawMemory_Capacity_def)

lemma Reserve_grow:
  assumes "well_formed v" and "capacity (data v) < n"
  shows "capacity (data (Reserve T v n)) = n"
    and "size_m (Reserve T v n) = size_m v"
    and "buffer (data (Reserve T v n)) = take (size_m v) (buffer (data v)) @ replicate (n - size_m v) Raw"
    and "address (data (Reserve T v n)) = fresh (data v)"
    and "block_bytes (data (Reserve T v n)) = size_t_wrap (n * sizeof_T T)"
    and "slot_bytes (data (Reserve T v n)) = sizeof_T T"
proof -
  let ?nb = "snd (MoveOrCopyRange T (buffer (data v)) 0 (size_m v) (replicate n Raw) 0)"
  have R: "Reserve T v n = v\<lparr>data := \<lparr>buffer = ?nb, capacity = n, address = fresh (data v),
      block_bytes = size_t_wrap (n * sizeof_T T), slot_bytes = sizeof_T T\<rparr>\<rparr>"
    using assms(2)
    by (simp add: Reserve_def raw_defs Vector_begin_def Vector_end_def Let_def split_def)
  show "capacity (data (Reserve T v n)) = n" and "size_m (Reserve T v n) = size_m v"
    and "address (data (Reserve T v n)) = fresh (data v)"
    and "block_bytes (data (Reserve T v n)) = size_t_wrap (n * sizeof_T T)"
    and "slot_bytes (data (Reserve T v n)) = sizeof_T T"
    by (simp_all add: R)
  have "?nb = take (size_m v) (buffer (data v)) @ replicate (n - size_m v) Raw"
  proof (rule nth_equalityI)
    show "length ?nb = length (take (size_m v) (buffer (data v)) @ replicate (n - size_m v) Raw)"
      using assms by (simp add: well_formed_def)
  next
    fix i assume "i < length ?nb"
    then have i: "i < n" by simp
    show "?nb ! i = (take (size_m v) (buffer (data v)) @ replicate (n - size_m v) Raw) ! i"
      using i assms
      by (simp add: nth_snd_MoveOrCopyRange nth_append slot_at_def well_formed_def)
  qed
  then show "buffer (data (Reserve T v n)) = take (size_m v) (buffer (data v)) @ replicate (n - size_m v) Raw"
    by (simp add: R)
qed

subsection \<open>Erase\<close>

text \<open>
  What \<^verbatim>\<open>Erase\<close> does to the block for every element type, and what it leaves when
  the destructor of \<^verbatim>\<open>T\<close> is trivial: the sequence without its \<open>i\<close>-th element.
\<close>

lemma Erase_shape:
  assumes "i < size_m v"
  shows "\<exists>b. Erase T v (address (data v) + i)
             = Inr (address (data v) + i, v\<lparr>data := (data v)\<lparr>buffer := b\<rparr>, size_m := size_m v - 1\<rparr>)
           \<and> length b = length (buffer (data v))
           \<and> b = (if Suc i = size_m v then destroy_at (buffer (data v)) i
                   else std_move T (destroy_at (buffer (data v)) i) (Suc i) (size_m v) i)"
  using assms
  by (simp add: Erase_def Vector_begin_def Vector_end_def GetAddress_def slot_index_def Let_def
      destroy_at_def std_move_def)

lemma Erase_result:
  assumes "well_formed v" and "i < size_m v" and "is_trivially_destructible T"
  shows "\<exists>v'. Erase T v (address (data v) + i) = Inr (address (data v) + i, v')
           \<and> size_m v' = size_m v - 1
           \<and> data v' = (data v)\<lparr>buffer := buffer (data v')\<rparr>
           \<and> length (buffer (data v')) = length (buffer (data v))
           \<and> elements v' = take i (elements v) @ drop (Suc i) (elements v)"
proof -
  let ?buf = "buffer (data v)"
  let ?b1 = "?buf[i := Raw]"
  let ?b2 = "if Suc i \<noteq> size_m v then move_steps T ?b1 (Suc i) (size_m v - Suc i) i else ?b1"
  let ?v' = "v\<lparr>data := (data v)\<lparr>buffer := ?b2\<rparr>, size_m := size_m v - 1\<rparr>"
  have E: "Erase T v (address (data v) + i) = Inr (address (data v) + i, ?v')"
    using assms(2)
    by (simp add: Erase_def Vector_begin_def Vector_end_def GetAddress_def slot_index_def Let_def
        destroy_at_def std_move_def)
  have len: "size_m v \<le> length ?buf"
    using assms(1) by (simp add: well_formed_def)
  have nth: "?b2 ! j = (if j < i then ?buf ! j else ?buf ! Suc j)" if "j < size_m v - 1" for j
  proof (cases "Suc i = size_m v")
    case True
    then show ?thesis using that by auto
  next
    case False
    have "i + (size_m v - Suc i) < length ?b1" and "j < length ?b1"
      using assms(2) len that by simp_all
    then show ?thesis
      using False that assms(2,3) by (simp add: nth_move_steps_left)
  qed
  have el: "elements ?v' = take i (elements v) @ drop (Suc i) (elements v)"
  proof (rule nth_equalityI)
    show "length (elements ?v') = length (take i (elements v) @ drop (Suc i) (elements v))"
      using assms(2) len by (auto simp: elements_def)
  next
    fix j assume "j < length (elements ?v')"
    then have j: "j < size_m v - 1"
      by (simp add: elements_def)
    have "elements ?v' ! j = ?b2 ! j"
      using j by (simp add: elements_def)
    also have "\<dots> = (if j < i then ?buf ! j else ?buf ! Suc j)"
      by (rule nth [OF j])
    also have "\<dots> = (take i (elements v) @ drop (Suc i) (elements v)) ! j"
      using j assms(2) len by (simp add: elements_def nth_append min_def)
    finally show "elements ?v' ! j = (take i (elements v) @ drop (Suc i) (elements v)) ! j" .
  qed
  have "length (buffer (data ?v')) = length ?buf"
    by simp
  with E el show ?thesis
    by (intro exI [of _ ?v']) simp
qed

subsection \<open>Emplace\<close>

text \<open>
  Both paths of \<^verbatim>\<open>Emplace\<close>. With reallocation the elements are constructed in a new
  block and nothing is assigned. Without it the slots from the position on are
  assigned to, so they must hold an object, or \<^verbatim>\<open>T\<close> have a trivial destructor.
\<close>

lemma EmplaceWithReallocation_result:
  assumes "well_formed v" and "index \<le> size_m v" and "size_m v = capacity (data v)"
  shows "\<exists>nb. EmplaceWithReallocation T v index x =
            Inr (v\<lparr>data := \<lparr>buffer = nb,
                   capacity = (if capacity (data v) = 0 then 1 else capacity (data v) * 2),
                   address = fresh (data v),
                   block_bytes = size_t_wrap ((if capacity (data v) = 0 then 1 else capacity (data v) * 2)
                                  * sizeof_T T),
                   slot_bytes = sizeof_T T\<rparr>\<rparr>)
          \<and> length nb = (if capacity (data v) = 0 then 1 else capacity (data v) * 2)
          \<and> (\<forall>i \<le> size_m v. nb ! i =
                (if i < index then buffer (data v) ! i else if i = index then Live x
                 else buffer (data v) ! (i - 1)))"
proof -
  let ?buf = "buffer (data v)"
  let ?nc = "if capacity (data v) = 0 then 1 else capacity (data v) * 2"
  let ?new0 = "(replicate ?nc Raw)[index := Live x]"
  let ?mc1 = "MoveOrCopyRange T ?buf 0 index ?new0 0"
  let ?mc2 = "MoveOrCopyRange T (fst ?mc1) index (size_m v) (snd ?mc1) (Suc index)"
  let ?nb = "snd ?mc2"
  have idx: "index \<le> ?nc" and sz: "size_m v < ?nc"
    using assms by auto
  have E: "EmplaceWithReallocation T v index x =
      Inr (v\<lparr>data := \<lparr>buffer = ?nb, capacity = ?nc, address = fresh (data v),
             block_bytes = size_t_wrap (?nc * sizeof_T T), slot_bytes = sizeof_T T\<rparr>\<rparr>)"
    using idx
    by (auto simp: EmplaceWithReallocation_def raw_defs Capacity_def Vector_begin_def
        Vector_end_def and_then_def construct_at_def Let_def split_def)
  have len: "length ?nb = ?nc"
    by simp
  have len_buf: "length ?buf = size_m v"
    using assms by (simp add: well_formed_def)
  have nth: "?nb ! i = (if i < index then ?buf ! i else if i = index then Live x else ?buf ! (i - 1))"
    if "i \<le> size_m v" for i
  proof -
    note i_le = that
    have i: "i < ?nc" using i_le sz by simp
    consider "i < index" | "i = index" | "index < i"
      by arith
    then show ?thesis
    proof cases
      case 1
      then show ?thesis
        using i assms(2) len_buf
        by (simp add: nth_snd_MoveOrCopyRange slot_at_def)
    next
      case 2
      then show ?thesis
        using i by (simp add: nth_snd_MoveOrCopyRange)
    next
      case 3
      have "?nb ! i = slot_at (fst ?mc1) (index + (i - Suc index))"
        using 3 i i_le by (simp add: nth_snd_MoveOrCopyRange)
      also have "\<dots> = slot_at ?buf (index + (i - Suc index))"
        by (rule slot_at_fst_MoveOrCopyRange) simp
      also have "index + (i - Suc index) = i - 1"
        using 3 by arith
      finally have "?nb ! i = slot_at ?buf (i - 1)" .
      moreover have "i - 1 < length ?buf"
        using 3 i_le len_buf by arith
      ultimately show ?thesis
        using 3 by (simp add: slot_at_def)
    qed
  qed
  show ?thesis
    using E len nth by blast
qed

lemma EmplaceWithoutReallocation_end:
  assumes "size_m v < capacity (data v)"
  shows "EmplaceWithoutReallocation T v (size_m v) x
         = Inr (v\<lparr>data := (data v)\<lparr>buffer := (buffer (data v))[size_m v := Live x]\<rparr>\<rparr>)"
  using assms
  by (simp add: EmplaceWithoutReallocation_def raw_defs and_then_def construct_at_def)

lemma EmplaceWithoutReallocation_mid:
  assumes "index < size_m v" and "size_m v < capacity (data v)"
  shows "EmplaceWithoutReallocation T v index x
         = Inr (v\<lparr>data := (data v)\<lparr>buffer :=
                  assign_at T
                    (move_backward_steps T
                       (move_construct_into T (buffer (data v)) (size_m v) (size_m v - 1))
                       (size_m v - 1 - index) (size_m v - 1) (size_m v))
                    index x\<rparr>\<rparr>)"
proof -
  have 1: "size_m v - Suc 0 < capacity (data v)" "index < capacity (data v)"
    "size_m v \<noteq> 0" "index \<noteq> size_m v"
    using assms by simp_all
  have 2: "address (data v) + size_m v - Suc (address (data v)) = size_m v - Suc 0"
    "address (data v) + (size_m v - Suc 0) - address (data v) = size_m v - Suc 0"
    by simp_all
  show ?thesis
    using 1 2 assms
    by (simp add: EmplaceWithoutReallocation_def raw_defs and_then_def move_backward_def
        Vector_begin_def Vector_end_def Let_def)
qed

lemma EmplaceWithoutReallocation_shape:
  assumes "well_formed v" and "index \<le> size_m v" and "size_m v \<noteq> capacity (data v)"
  shows "\<exists>nb. EmplaceWithoutReallocation T v index x = Inr (v\<lparr>data := (data v)\<lparr>buffer := nb\<rparr>\<rparr>)
          \<and> length nb = capacity (data v)"
proof -
  have len: "length (buffer (data v)) = capacity (data v)" and lt: "size_m v < capacity (data v)"
    using assms by (simp_all add: well_formed_def)
  show ?thesis
  proof (cases "index = size_m v")
    case True
    then show ?thesis
      using EmplaceWithoutReallocation_end [OF lt, of T x] len
      by (intro exI [of _ "(buffer (data v))[size_m v := Live x]"]) simp
  next
    case False
    then have "index < size_m v"
      using assms(2) by simp
    from EmplaceWithoutReallocation_mid [OF this lt, of T x] len show ?thesis
      by (intro exI [of _ "assign_at T
                    (move_backward_steps T
                       (move_construct_into T (buffer (data v)) (size_m v) (size_m v - 1))
                       (size_m v - 1 - index) (size_m v - 1) (size_m v))
                    index x"]) simp
  qed
qed

lemma EmplaceWithoutReallocation_result:
  assumes "well_formed v" and "index \<le> size_m v" and "size_m v \<noteq> capacity (data v)"
    and "\<And>j. index \<le> j \<Longrightarrow> j < size_m v \<Longrightarrow> writable T (buffer (data v) ! j)"
  shows "\<exists>nb. EmplaceWithoutReallocation T v index x = Inr (v\<lparr>data := (data v)\<lparr>buffer := nb\<rparr>\<rparr>)
          \<and> length nb = capacity (data v)
          \<and> (\<forall>i \<le> size_m v. nb ! i =
                (if i < index then buffer (data v) ! i else if i = index then Live x
                 else buffer (data v) ! (i - 1)))"
proof -
  let ?buf = "buffer (data v)"
  let ?n = "size_m v"
  have len: "length ?buf = capacity (data v)" and lt: "?n < capacity (data v)"
    using assms by (simp_all add: well_formed_def)
  show ?thesis
  proof (cases "index = ?n")
    case True
    have "length (?buf[?n := Live x]) = capacity (data v)"
      using len by simp
    moreover have "\<forall>i \<le> ?n. (?buf[?n := Live x]) ! i =
        (if i < index then ?buf ! i else if i = index then Live x else ?buf ! (i - 1))"
      using True len lt by (auto simp: nth_list_update)
    ultimately show ?thesis
      using EmplaceWithoutReallocation_end [OF lt, of T x] True by blast
  next
    case False
    then have pos: "0 < ?n" and index: "index < ?n"
      using assms(2) by simp_all
    define l where "l = ?n - 1"
    define b1 where "b1 = move_construct_into T ?buf ?n l"
    define b2 where "b2 = move_backward_steps T b1 (l - index) l ?n"
    let ?nb = "assign_at T b2 index x"
    have Sl: "Suc l = ?n" and li: "l - (l - index) = index" and l_lt: "l < capacity (data v)"
      using pos index lt by (simp_all add: l_def)
    have E: "EmplaceWithoutReallocation T v index x = Inr (v\<lparr>data := (data v)\<lparr>buffer := ?nb\<rparr>\<rparr>)"
      using EmplaceWithoutReallocation_mid [OF index lt, of T x]
      by (simp add: l_def b1_def b2_def)
    have len1: "length b1 = capacity (data v)"
      using len by (simp add: b1_def)
    have b1: "b1 ! j = (if j = ?n then ?buf ! l else if j = l then moved T (?buf ! l) else ?buf ! j)"
      if "j \<le> ?n" for j
      using that lt len l_lt by (simp add: b1_def move_construct_into_def slot_at_def nth_list_update)
    have w1: "writable T (b1 ! j)" if "index < j" "j \<le> l" for j
    proof -
      have "writable T (?buf ! j)"
        using that Sl by (intro assms(4)) simp_all
      moreover have "j \<le> ?n" "j \<noteq> ?n"
        using that Sl by simp_all
      ultimately show ?thesis
        by (auto simp: b1)
    qed
    have b2: "b2 ! i =
       (if index < i \<and> i \<le> l then b1 ! (i - 1)
        else if i = index \<and> 0 < l - index then moved T (b1 ! i) else b1 ! i)"
      if "i \<le> ?n" for i
    proof -
      have "move_backward_steps T b1 (l - index) l (Suc l) ! i =
       (if l - (l - index) < i \<and> i \<le> l then b1 ! (i - 1)
        else if i = l - (l - index) \<and> 0 < l - index then moved T (b1 ! i) else b1 ! i)"
        using that lt len1 l_lt w1 by (intro nth_move_backward_steps_right) (simp_all add: li)
      then show ?thesis by (simp only: Sl li b2_def)
    qed
    have len2: "length b2 = capacity (data v)"
      using len1 by (simp add: b2_def)
    have wi: "writable T (b2 ! index)"
    proof -
      have "writable T (?buf ! index)"
        using index by (intro assms(4)) simp_all
      moreover have "index \<le> ?n" "index \<noteq> ?n" "index \<le> l"
        using index Sl by simp_all
      ultimately show ?thesis
        using b2 [of index] b1 [of index] by (cases "index = l") auto
    qed
    have nb: "?nb = b2[index := Live x]"
      using wi index lt len2 by (simp add: assign_at_def assign_into_writable slot_at_def)
    have nth: "?nb ! i = (if i < index then ?buf ! i else if i = index then Live x else ?buf ! (i - 1))"
      if "i \<le> ?n" for i
    proof -
      note i_le = that
      consider "i < index" | "i = index" | "index < i" "i \<le> l" | "i = ?n"
        using i_le Sl by atomize_elim arith
      then show ?thesis
      proof cases
        case 1
        then have "i \<noteq> ?n" "i \<noteq> l" "\<not> index < i" "i \<noteq> index"
          using index Sl by simp_all
        then show ?thesis
          using b2 [OF i_le] b1 [OF i_le] 1 by (simp add: nb)
      next
        case 2
        then show ?thesis
          using index lt len2 by (simp add: nb)
      next
        case 3
        then have "i - 1 \<le> ?n" "i - 1 \<noteq> ?n" "i - 1 \<noteq> l" "i \<noteq> index" "\<not> i < index"
          using Sl by simp_all
        then show ?thesis
          using b2 [OF i_le] b1 [of "i - 1"] 3 by (simp add: nb)
      next
        case 4
        then have "\<not> i \<le> l" "i \<noteq> index" "\<not> i < index" "i - 1 = l"
          using Sl index by simp_all
        then show ?thesis
          using b2 [OF i_le] b1 [OF i_le] 4 by (simp add: nb)
      qed
    qed
    have "length ?nb = capacity (data v)"
      using len2 by simp
    with E nth show ?thesis by blast
  qed
qed

lemma take_inserted:
  assumes "Suc n \<le> length nb" and "n \<le> length buf" and "pos \<le> n"
    and "\<forall>i \<le> n. nb ! i = (if i < pos then buf ! i else if i = pos then s else buf ! (i - 1))"
  shows "take (Suc n) nb = take pos (take n buf) @ s # drop pos (take n buf)"
proof (rule nth_equalityI)
  show "length (take (Suc n) nb) = length (take pos (take n buf) @ s # drop pos (take n buf))"
    using assms(1-3) by simp
next
  fix i assume "i < length (take (Suc n) nb)"
  then have i: "i \<le> n" by simp
  then have "take (Suc n) nb ! i = (if i < pos then buf ! i else if i = pos then s else buf ! (i - 1))"
    using assms(4) by simp
  also have "\<dots> = (take pos (take n buf) @ s # drop pos (take n buf)) ! i"
    using i assms(2,3) by (auto simp: nth_append min_def nth_Cons')
  finally show "take (Suc n) nb ! i = (take pos (take n buf) @ s # drop pos (take n buf)) ! i" .
qed

lemma Emplace_paths:
  assumes "well_formed v" and "i \<le> size_m v"
  shows "\<exists>d. (if size_m v = Capacity v then EmplaceWithReallocation T v i x
              else EmplaceWithoutReallocation T v i x) = Inr (v\<lparr>data := d\<rparr>)
          \<and> length (buffer d) = capacity d
          \<and> capacity d = (if size_m v = capacity (data v)
                           then (if capacity (data v) = 0 then 1 else capacity (data v) * 2)
                           else capacity (data v))
          \<and> address d = (if size_m v = capacity (data v) then fresh (data v) else address (data v))
          \<and> ((size_m v = capacity (data v)
               \<or> (\<forall>j. i \<le> j \<and> j < size_m v \<longrightarrow> writable T (buffer (data v) ! j)))
              \<longrightarrow> (\<forall>k \<le> size_m v. buffer d ! k =
                     (if k < i then buffer (data v) ! k else if k = i then Live x
                      else buffer (data v) ! (k - 1))))"
proof (cases "size_m v = capacity (data v)")
  case True
  from EmplaceWithReallocation_result [OF assms True, of T x] obtain nb where nb:
    "EmplaceWithReallocation T v i x =
            Inr (v\<lparr>data := \<lparr>buffer = nb,
                   capacity = (if capacity (data v) = 0 then 1 else capacity (data v) * 2),
                   address = fresh (data v),
                   block_bytes = size_t_wrap ((if capacity (data v) = 0 then 1 else capacity (data v) * 2)
                                  * sizeof_T T),
                   slot_bytes = sizeof_T T\<rparr>\<rparr>)"
    "length nb = (if capacity (data v) = 0 then 1 else capacity (data v) * 2)"
    "\<forall>k \<le> size_m v. nb ! k =
                (if k < i then buffer (data v) ! k else if k = i then Live x
                 else buffer (data v) ! (k - 1))"
    by blast
  show ?thesis
    using True nb
    by (intro exI [of _ "\<lparr>buffer = nb,
                   capacity = (if capacity (data v) = 0 then 1 else capacity (data v) * 2),
                   address = fresh (data v),
                   block_bytes = size_t_wrap ((if capacity (data v) = 0 then 1 else capacity (data v) * 2)
                                  * sizeof_T T),
                   slot_bytes = sizeof_T T\<rparr>"])
       (simp add: Capacity_def RawMemory_Capacity_def)
next
  case False
  from EmplaceWithoutReallocation_shape [OF assms False, of T x] obtain nb where nb:
    "EmplaceWithoutReallocation T v i x = Inr (v\<lparr>data := (data v)\<lparr>buffer := nb\<rparr>\<rparr>)"
    "length nb = capacity (data v)"
    by blast
  have content: "\<forall>k \<le> size_m v. nb ! k =
                (if k < i then buffer (data v) ! k else if k = i then Live x
                 else buffer (data v) ! (k - 1))"
    if "\<forall>j. i \<le> j \<and> j < size_m v \<longrightarrow> writable T (buffer (data v) ! j)"
  proof -
    from EmplaceWithoutReallocation_result [OF assms False, of T x] that obtain nb' where nb':
      "EmplaceWithoutReallocation T v i x = Inr (v\<lparr>data := (data v)\<lparr>buffer := nb'\<rparr>\<rparr>)"
      "\<forall>k \<le> size_m v. nb' ! k =
                (if k < i then buffer (data v) ! k else if k = i then Live x
                 else buffer (data v) ! (k - 1))"
      by blast
    from nb(1) nb'(1)
    have "v\<lparr>data := (data v)\<lparr>buffer := nb\<rparr>\<rparr> = v\<lparr>data := (data v)\<lparr>buffer := nb'\<rparr>\<rparr>"
      by simp
    then have "buffer (data (v\<lparr>data := (data v)\<lparr>buffer := nb\<rparr>\<rparr>))
        = buffer (data (v\<lparr>data := (data v)\<lparr>buffer := nb'\<rparr>\<rparr>))"
      by (simp only:)
    then have "nb = nb'" by simp
    with nb'(2) show ?thesis by simp
  qed
  show ?thesis
    using False nb content
    by (intro exI [of _ "(data v)\<lparr>buffer := nb\<rparr>"])
       (simp add: Capacity_def RawMemory_Capacity_def)
qed

lemma Emplace_shape:
  assumes "well_formed v" and "i \<le> size_m v"
  shows "\<exists>v'. Emplace T v (address (data v) + i) x = Inr (address (data v') + i, v')
           \<and> size_m v' = Suc (size_m v) \<and> well_formed v'
           \<and> capacity (data v') =
               (if size_m v = capacity (data v)
                then (if capacity (data v) = 0 then 1 else capacity (data v) * 2)
                else capacity (data v))
           \<and> address (data v') =
               (if size_m v = capacity (data v) then fresh (data v) else address (data v))
           \<and> ((size_m v = capacity (data v)
                \<or> (\<forall>j. i \<le> j \<and> j < size_m v \<longrightarrow> writable T (buffer (data v) ! j)))
               \<longrightarrow> elements v' = take i (elements v) @ Live x # drop i (elements v))"
proof -
  let ?nc = "if size_m v = capacity (data v)
             then (if capacity (data v) = 0 then 1 else capacity (data v) * 2)
             else capacity (data v)"
  have len: "length (buffer (data v)) = capacity (data v)" and le: "size_m v \<le> capacity (data v)"
    using assms(1) by (simp_all add: well_formed_def)
  from Emplace_paths [OF assms, of T x] obtain d where d:
    "(if size_m v = Capacity v then EmplaceWithReallocation T v i x
      else EmplaceWithoutReallocation T v i x) = Inr (v\<lparr>data := d\<rparr>)"
    "length (buffer d) = capacity d" "capacity d = ?nc"
    "address d = (if size_m v = capacity (data v) then fresh (data v) else address (data v))"
    "(size_m v = capacity (data v)
       \<or> (\<forall>j. i \<le> j \<and> j < size_m v \<longrightarrow> writable T (buffer (data v) ! j)))
     \<longrightarrow> (\<forall>k \<le> size_m v. buffer d ! k =
            (if k < i then buffer (data v) ! k else if k = i then Live x
             else buffer (data v) ! (k - 1)))"
    by blast
  let ?v' = "v\<lparr>data := d, size_m := Suc (size_m v)\<rparr>"
  have E: "Emplace T v (address (data v) + i) x = Inr (address (data ?v') + i, ?v')"
    using assms(2) d(1)
    by (simp add: Emplace_def Vector_begin_def Vector_end_def GetAddress_def and_then_def Let_def)
  have big: "Suc (size_m v) \<le> ?nc"
    using le by auto
  have w: "well_formed ?v'"
    using d(2,3) big by (simp add: well_formed_def)
  have el: "elements ?v' = take i (elements v) @ Live x # drop i (elements v)"
    if "size_m v = capacity (data v)
       \<or> (\<forall>j. i \<le> j \<and> j < size_m v \<longrightarrow> writable T (buffer (data v) ! j))"
  proof -
    from d(5) that have c: "\<forall>k \<le> size_m v. buffer d ! k =
            (if k < i then buffer (data v) ! k else if k = i then Live x
             else buffer (data v) ! (k - 1))"
      by blast
    have "Suc (size_m v) \<le> length (buffer d)"
      using d(2,3) big by simp
    then have "take (Suc (size_m v)) (buffer d) =
      take i (take (size_m v) (buffer (data v))) @ Live x # drop i (take (size_m v) (buffer (data v)))"
      using c len le assms(2) by (intro take_inserted) simp_all
    then show ?thesis
      by (simp add: elements_def)
  qed
  show ?thesis
    using E w el d(3,4) by (intro exI [of _ ?v']) simp
qed

lemma PushBack_result:
  assumes "well_formed v"
  shows "\<exists>v'. PushBack T v x = Inr v' \<and> size_m v' = Suc (size_m v) \<and> well_formed v'
           \<and> capacity (data v') =
               (if size_m v = capacity (data v)
                then (if capacity (data v) = 0 then 1 else capacity (data v) * 2)
                else capacity (data v))
           \<and> elements v' = elements v @ [Live x]"
proof -
  have "length (elements v) = size_m v"
    using assms by (simp add: elements_def well_formed_def)
  then show ?thesis
    using Emplace_shape [OF assms, of "size_m v" T x]
    by (auto simp: PushBack_def EmplaceBack_def Vector_end_def GetAddress_def and_then_def)
qed

lemma PushBack_doubled:
  assumes "doubled v"
  shows "\<exists>v'. PushBack T v x = Inr v' \<and> size_m v' = Suc (size_m v) \<and> doubled v'
            \<and> elements v' = elements v @ [Live x]"
proof -
  from assms have w: "well_formed v" by (simp add: doubled_def)
  from PushBack_result [OF w, of T x] obtain v' where v':
    "PushBack T v x = Inr v'" "size_m v' = Suc (size_m v)" "well_formed v'"
    "capacity (data v') =
               (if size_m v = capacity (data v)
                then (if capacity (data v) = 0 then 1 else capacity (data v) * 2)
                else capacity (data v))"
    "elements v' = elements v @ [Live x]"
    by blast
  have le: "size_m v \<le> capacity (data v)"
    using w by (simp add: well_formed_def)
  have "(\<exists>n. capacity (data v') = 2 ^ n) \<and> capacity (data v') < 2 * size_m v'"
  proof (cases "capacity (data v) = 0")
    case True
    then have "capacity (data v') = 2 ^ 0"
      using v'(4) le by simp
    moreover have "capacity (data v') < 2 * size_m v'"
      using v'(2,4) le True by simp
    ultimately show ?thesis by blast
  next
    case False
    then obtain n where n: "capacity (data v) = 2 ^ n" and lt: "capacity (data v) < 2 * size_m v"
      using assms le by (auto simp: doubled_def)
    show ?thesis
    proof (cases "size_m v = capacity (data v)")
      case True
      then have "capacity (data v') = 2 ^ Suc n"
        using v'(4) False n by simp
      moreover have "capacity (data v') < 2 * size_m v'"
        using v'(4) v'(2) True False by simp
      ultimately show ?thesis by blast
    next
      case False
      then show ?thesis
        using v'(4) v'(2) n lt by auto
    qed
  qed
  then show ?thesis
    using v' by (auto simp: doubled_def)
qed

lemma push_all_doubled:
  "doubled v \<Longrightarrow>
   \<exists>v'. push_all T v xs = Inr v' \<and> size_m v' = size_m v + length xs \<and> doubled v'
        \<and> elements v' = elements v @ map Live xs"
proof (induction xs arbitrary: v)
  case Nil
  then show ?case by simp
next
  case (Cons x xs)
  from PushBack_doubled [OF Cons.prems, of T x] obtain v1 where v1:
    "PushBack T v x = Inr v1" "size_m v1 = Suc (size_m v)" "doubled v1"
    "elements v1 = elements v @ [Live x]"
    by blast
  from Cons.IH [OF v1(3)] obtain v' where
    "push_all T v1 xs = Inr v'" "size_m v' = size_m v1 + length xs" "doubled v'"
    "elements v' = elements v1 @ map Live xs"
    by blast
  then show ?case
    using v1 by (simp add: and_then_def)
qed

lemma least_power:
  assumes "c = (2::nat) ^ n" and "c < 2 * k" and "k \<le> 2 ^ m"
  shows "n \<le> m"
proof (rule ccontr)
  assume "\<not> n \<le> m"
  then have "Suc m \<le> n" by simp
  then have "(2::nat) ^ Suc m \<le> 2 ^ n"
    by (rule power_increasing) simp
  then have "2 * k \<le> c"
    using assms(1,3) by simp
  with assms(2) show False by simp
qed

subsection \<open>Copy assignment, branch by branch\<close>

text \<open>
  With distinct operands the right-hand side is never touched. The copy-and-swap branch
  and the in-place branch for a right-hand side that is not larger both leave the
  elements of the right-hand side in the target. The in-place branch for a larger
  right-hand side copies only a front part of it and keeps the old slots behind.
\<close>

lemma copy_assign_rhs: "a \<noteq> b \<Longrightarrow> copy_assign s a b b = s b"
  by (simp add: copy_assign_def Let_def split_def)

lemma copy_assign_reallocating:
  assumes "a \<noteq> b" and "well_formed (s b)" and "capacity (data (s a)) < size_m (s b)"
  shows "elements (copy_assign s a b a) = elements (s b)"
    and "size_m (copy_assign s a b a) = size_m (s b)"
    and "capacity (data (copy_assign s a b a)) = size_m (s b)"
proof -
  let ?n = "size_m (s b)"
  let ?nb = "uninitialized_copy_n (buffer (data (s b))) 0 ?n (replicate ?n Raw) 0"
  have C: "size_m (copy_assign s a b a) = ?n" "capacity (data (copy_assign s a b a)) = ?n"
    "buffer (data (copy_assign s a b a)) = ?nb"
    using assms(1,3)
    by (simp_all add: copy_assign_def Let_def split_def Swap_def RawMemory_Swap_def Vector_copy_def
        RawMemory_sized_def Allocate_def RawMemory_Capacity_def Vector_begin_def GetAddress_def
        slot_index_def)
  show "size_m (copy_assign s a b a) = ?n" and "capacity (data (copy_assign s a b a)) = ?n"
    by (simp_all add: C)
  have len: "?n \<le> length (buffer (data (s b)))"
    using assms(2) by (simp add: well_formed_def)
  have "take ?n ?nb = take ?n (buffer (data (s b)))"
  proof (rule nth_equalityI)
    show "length (take ?n ?nb) = length (take ?n (buffer (data (s b))))"
      using len by simp
  next
    fix i assume "i < length (take ?n ?nb)"
    then have "i < ?n" by simp
    then show "take ?n ?nb ! i = take ?n (buffer (data (s b))) ! i"
      using len by (simp add: nth_uninitialized_copy_n slot_at_def)
  qed
  then show "elements (copy_assign s a b a) = elements (s b)"
    by (simp add: C elements_def)
qed

lemma copy_assign_in_place_not_larger:
  assumes "a \<noteq> b" and "well_formed (s a)" and "well_formed (s b)"
    and "size_m (s b) \<le> size_m (s a)"
  shows "elements (copy_assign s a b a) = elements (s b)"
    and "size_m (copy_assign s a b a) = size_m (s b)"
    and "capacity (data (copy_assign s a b a)) = capacity (data (s a))"
proof -
  let ?n = "size_m (s b)"
  let ?b1 = "copy_n (buffer (data (s b))) 0 ?n (buffer (data (s a))) 0"
  let ?b2 = "destroy_n ?b1 ?n (size_m (s a) - ?n)"
  have fit: "\<not> capacity (data (s a)) < ?n"
    using assms(2,4) by (simp add: well_formed_def)
  have C: "copy_assign s a b a = (s a)\<lparr>data := (data (s a))\<lparr>buffer := ?b2\<rparr>, size_m := ?n\<rparr>"
    using assms(1,4) fit
    by (simp add: copy_assign_def Let_def RawMemory_Capacity_def Vector_begin_def GetAddress_def
        slot_index_def min_def)
  show "size_m (copy_assign s a b a) = ?n"
    and "capacity (data (copy_assign s a b a)) = capacity (data (s a))"
    by (simp_all add: C)
  have len: "?n \<le> length (buffer (data (s b)))" "?n \<le> length (buffer (data (s a)))"
    using assms(2-4) by (simp_all add: well_formed_def)
  have "take ?n ?b2 = take ?n (buffer (data (s b)))"
  proof (rule nth_equalityI)
    show "length (take ?n ?b2) = length (take ?n (buffer (data (s b))))"
      using len by simp
  next
    fix i assume "i < length (take ?n ?b2)"
    then have "i < ?n" by simp
    then show "take ?n ?b2 ! i = take ?n (buffer (data (s b))) ! i"
      using len by (simp add: nth_destroy_n nth_copy_n slot_at_def)
  qed
  then show "elements (copy_assign s a b a) = elements (s b)"
    by (simp add: C elements_def)
qed

lemma copy_assign_in_place_larger:
  assumes "a \<noteq> b" and "well_formed (s a)" and "well_formed (s b)"
    and "size_m (s a) < size_m (s b)" and "size_m (s b) \<le> capacity (data (s a))"
  shows "size_m (copy_assign s a b a) = size_m (s b)"
    and "capacity (data (copy_assign s a b a)) = capacity (data (s a))"
    and "elements (copy_assign s a b a) =
           take (max (size_m (s a)) (size_m (s b) - size_m (s a))) (elements (s b))
           @ drop (max (size_m (s a)) (size_m (s b) - size_m (s a)))
               (take (size_m (s b)) (buffer (data (s a))))"
proof -
  let ?n = "size_m (s b)" and ?k = "size_m (s a)"
  let ?m = "max ?k (?n - ?k)"
  let ?b1 = "copy_n (buffer (data (s b))) 0 ?k (buffer (data (s a))) 0"
  let ?b2 = "uninitialized_copy_n (buffer (data (s b))) 0 (?n - ?k) ?b1 0"
  have fit: "\<not> capacity (data (s a)) < ?n"
    using assms(5) by simp
  have C: "copy_assign s a b a = (s a)\<lparr>data := (data (s a))\<lparr>buffer := ?b2\<rparr>, size_m := ?n\<rparr>"
    using assms(1,4) fit
    by (simp add: copy_assign_def Let_def RawMemory_Capacity_def Vector_begin_def GetAddress_def
        slot_index_def min_def)
  show "size_m (copy_assign s a b a) = ?n"
    and "capacity (data (copy_assign s a b a)) = capacity (data (s a))"
    by (simp_all add: C)
  have len: "?n \<le> length (buffer (data (s b)))" "?n \<le> length (buffer (data (s a)))"
    using assms(2,3,5) by (simp_all add: well_formed_def)
  have "take ?n ?b2 = take ?m (take ?n (buffer (data (s b)))) @ drop ?m (take ?n (buffer (data (s a))))"
  proof (rule nth_equalityI)
    show "length (take ?n ?b2) =
        length (take ?m (take ?n (buffer (data (s b)))) @ drop ?m (take ?n (buffer (data (s a)))))"
    proof -
      have "?m \<le> ?n" using assms(4) by simp
      then show ?thesis using len by simp
    qed
  next
    fix i assume "i < length (take ?n ?b2)"
    then have i: "i < ?n" by simp
    show "take ?n ?b2 ! i =
        (take ?m (take ?n (buffer (data (s b)))) @ drop ?m (take ?n (buffer (data (s a))))) ! i"
    proof (cases "i < ?m")
      case True
      then have "i < ?k \<or> i < ?n - ?k" by auto
      moreover have "(take ?m (take ?n (buffer (data (s b)))) @ drop ?m (take ?n (buffer (data (s a))))) ! i
          = buffer (data (s b)) ! i"
        using True i len by (simp add: nth_append)
      ultimately show ?thesis
        using i len
        by (auto simp: nth_uninitialized_copy_n nth_copy_n slot_at_def)
    next
      case False
      then have out: "\<not> i < ?k" "\<not> i < ?n - ?k" by auto
      have "?m \<le> ?n" using assms(4) by simp
      moreover have "?m + (i - ?m) = i" using False by arith
      ultimately have "(take ?m (take ?n (buffer (data (s b)))) @ drop ?m (take ?n (buffer (data (s a))))) ! i
          = buffer (data (s a)) ! i"
        using False i len by (simp add: nth_append)
      then show ?thesis
        using i len out
        by (simp add: nth_uninitialized_copy_n nth_copy_n)
    qed
  qed
  then show "elements (copy_assign s a b a) =
           take ?m (elements (s b)) @ drop ?m (take ?n (buffer (data (s a))))"
    by (simp add: C elements_def)
qed

subsection \<open>The size stays within the capacity\<close>

text \<open>
  Every operation takes well-formed vectors to well-formed vectors, so every vector of
  a reachable store is well formed.
\<close>

lemma well_formed_Vector_default [simp]: "well_formed Vector_default"
  by (simp add: well_formed_def Vector_default_def RawMemory_default_def)

lemma well_formed_Vector_sized [simp]: "well_formed (Vector_sized T n)"
  by (simp add: well_formed_def Vector_sized_def RawMemory_sized_def Allocate_def Let_def)

lemma well_formed_Vector_copy [simp]: "well_formed (Vector_copy v)"
  by (simp add: well_formed_def Vector_copy_def RawMemory_sized_def Allocate_def Let_def)

lemma well_formed_Vector_move: "well_formed v \<Longrightarrow> well_formed (fst (Vector_move v)) \<and> well_formed (snd (Vector_move v))"
  by (simp add: well_formed_def Vector_move_def RawMemory_move_def)

lemma well_formed_Swap: "well_formed v \<Longrightarrow> well_formed w \<Longrightarrow> well_formed (fst (Swap v w)) \<and> well_formed (snd (Swap v w))"
  by (simp add: well_formed_def Swap_def RawMemory_Swap_def)

lemma well_formed_Swap_at: "well_formed (s a) \<Longrightarrow> well_formed (s b) \<Longrightarrow> well_formed (s c) \<Longrightarrow> well_formed (Swap_at s a b c)"
  using well_formed_Swap [of "s a" "s b"] by (simp add: Swap_at_def split_def Let_def)

lemma well_formed_move_assign: "well_formed (s a) \<Longrightarrow> well_formed (s b) \<Longrightarrow> well_formed (s c) \<Longrightarrow> well_formed (move_assign s a b c)"
  by (simp add: move_assign_def well_formed_Swap_at)

lemma well_formed_copy_assign:
  assumes "well_formed (s a)" and "well_formed (s b)" and "well_formed (s c)"
  shows "well_formed (copy_assign s a b c)"
proof (cases "a = b")
  case True
  then show ?thesis using assms by (simp add: copy_assign_def)
next
  case False
  show ?thesis
  proof (cases "c = a")
    case c: True
    show ?thesis
    proof (cases "size_m (s b) > RawMemory_Capacity (data (s a))")
      case True
      then show ?thesis
        using False c
        by (simp add: copy_assign_def Swap_def RawMemory_Swap_def split_def Let_def well_formed_def
            Vector_copy_def RawMemory_sized_def Allocate_def)
    next
      case False
      then show ?thesis
        using \<open>a \<noteq> b\<close> c assms(1)
        by (simp add: copy_assign_def Let_def well_formed_def RawMemory_Capacity_def)
    qed
  next
    case False
    then show ?thesis
      using assms(3) by (simp add: copy_assign_def Let_def split_def)
  qed
qed

lemma well_formed_Reserve: "well_formed v \<Longrightarrow> well_formed (Reserve T v n)"
proof (cases "n \<le> capacity (data v)")
  case True
  assume "well_formed v"
  then show ?thesis using True by (simp add: Reserve_keep)
next
  case False
  assume w: "well_formed v"
  from False have lt: "capacity (data v) < n" by simp
  show ?thesis
    using w lt Reserve_grow [OF w lt, of T] by (simp add: well_formed_def)
qed

lemma well_formed_Resize: "well_formed v \<Longrightarrow> well_formed (Resize T v n)"
proof -
  assume w: "well_formed v"
  consider "n < size_m v" | "n = size_m v" | "size_m v < n" "n \<le> capacity (data v)"
    | "size_m v < n" "capacity (data v) < n"
    by atomize_elim arith
  then show ?thesis
  proof cases
    case 1
    then show ?thesis using w by (simp add: Resize_def well_formed_def)
  next
    case 2
    then show ?thesis using w by (simp add: Resize_def well_formed_def)
  next
    case 3
    then show ?thesis using w by (simp add: Resize_def well_formed_def RawMemory_Capacity_def Let_def)
  next
    case 4
    then show ?thesis
      using w Reserve_grow [OF w 4(2), of T]
      by (simp add: Resize_def well_formed_def RawMemory_Capacity_def Let_def)
  qed
qed

lemma well_formed_Clear: "well_formed v \<Longrightarrow> well_formed (Clear v)"
  by (simp add: Clear_def well_formed_def)

lemma well_formed_PopBack: "well_formed v \<Longrightarrow> PopBack v = Inr v' \<Longrightarrow> well_formed v'"
  by (auto simp: PopBack_def well_formed_def and_then_def RawMemory_plus_def Let_def destroy_at_def
      GetAddress_def slot_index_def split: if_splits)

lemma well_formed_Emplace:
  assumes "well_formed v" and "Emplace T v pos x = Inr (p, v')"
  shows "well_formed v'"
proof -
  have r: "address (data v) \<le> pos" "pos \<le> address (data v) + size_m v"
    using assms(2)
    by (auto simp: Emplace_def Vector_begin_def Vector_end_def GetAddress_def split: if_splits)
  define i where "i = pos - address (data v)"
  have i: "i \<le> size_m v" and pos: "pos = address (data v) + i"
    using r by (simp_all add: i_def)
  from Emplace_shape [OF assms(1) i, of T x] assms(2) show ?thesis
    unfolding pos by auto
qed

lemma well_formed_PushBack: "well_formed v \<Longrightarrow> PushBack T v x = Inr v' \<Longrightarrow> well_formed v'"
  using PushBack_result [of v T x] by auto

lemma well_formed_Erase:
  assumes "well_formed v" and "Erase T v pos = Inr (p, v')"
  shows "well_formed v'"
proof -
  have r: "address (data v) \<le> pos" "pos < address (data v) + size_m v"
    using assms(2)
    by (auto simp: Erase_def Vector_begin_def Vector_end_def GetAddress_def split: if_splits)
  define i where "i = pos - address (data v)"
  have i: "i < size_m v" and pos: "pos = address (data v) + i"
    using r by (simp_all add: i_def)
  from Erase_shape [OF i, of T] assms(2) obtain b where
    "v' = v\<lparr>data := (data v)\<lparr>buffer := b\<rparr>, size_m := size_m v - 1\<rparr>"
    "length b = length (buffer (data v))"
    unfolding pos by auto
  then show ?thesis
    using assms(1) by (auto simp: well_formed_def)
qed

lemma reachable_well_formed: "reachable T s \<Longrightarrow> well_formed (s c)"
proof (induction arbitrary: c rule: reachable.induct)
  case start
  show ?case by simp
next
  case (construct_sized s a n)
  then show ?case by simp
next
  case (construct_copy s a b)
  then show ?case by simp
next
  case (construct_move s a b)
  then show ?case using well_formed_Vector_move [of "s b"] by simp
next
  case (assign_copy s a b)
  then show ?case by (simp add: well_formed_copy_assign)
next
  case (assign_move s a b)
  then show ?case by (simp add: well_formed_move_assign)
next
  case (swap s a b)
  then show ?case by (simp add: well_formed_Swap_at)
next
  case (reserve s a n)
  then show ?case by (simp add: well_formed_Reserve)
next
  case (resize s a n)
  then show ?case by (simp add: well_formed_Resize)
next
  case (clear s a)
  then show ?case by (simp add: well_formed_Clear)
next
  case (push_back s a x v)
  then show ?case using well_formed_PushBack [of "s a" T x v] by simp
next
  case (emplace_back s a x p v)
  then show ?case using well_formed_Emplace [of "s a" T "Vector_end (s a)" x p v] by (simp add: EmplaceBack_def)
next
  case (pop_back s a v)
  then show ?case using well_formed_PopBack [of "s a" v] by simp
next
  case (emplace s a pos x p v)
  then show ?case using well_formed_Emplace [of "s a" T pos x p v] by simp
next
  case (insert s a pos x p v)
  then show ?case using well_formed_Emplace [of "s a" T pos x p v] by (simp add: Insert_def)
next
  case (erase s a pos p v)
  then show ?case using well_formed_Erase [of "s a" T pos p v] by simp
qed

subsection \<open>Checked access and the work of the constructors\<close>



lemma At_bounds:
  assumes "well_formed v"
  shows "(At v index = Inl OutOfRange \<longleftrightarrow> size_m v \<le> index)"
    and "At v index \<noteq> Inl AssertionFailed"
    and "index < size_m v \<Longrightarrow> At v index = Inr (Vector_begin v + index)"
    and "index < size_m v \<Longrightarrow> deref v (Vector_begin v + index) = elements v ! index"
  using assms
  by (auto simp: At_def RawMemory_index_def GetAddress_def Vector_begin_def deref_def
      slot_index_def slot_at_def elements_def well_formed_def)

subsection \<open>What the insertions return on live elements\<close>

text \<open>
  Where no slot from the position on lacks its object, or the block is full so that
  the insertion reallocates, \<^verbatim>\<open>Emplace\<close> returns the address at the distance of the
  position from the new \<^verbatim>\<open>begin()\<close>, in the new block when there is one, and the slot
  there holds the inserted value. \<^verbatim>\<open>EmplaceBack\<close> assigns to no slot, so it does so on
  every well-formed vector.
\<close>

lemma all_live_nth:
  "all_live v \<Longrightarrow> well_formed v \<Longrightarrow> i < size_m v \<Longrightarrow> \<exists>x. buffer (data v) ! i = Live x"
proof -
  assume live: "all_live v" and w: "well_formed v" and i: "i < size_m v"
  have "i < length (elements v)"
    using w i by (simp add: elements_def well_formed_def)
  then have "is_live (elements v ! i)"
    using live by (simp add: all_live_def list_all_length)
  then have "is_live (buffer (data v) ! i)"
    using i by (simp add: elements_def)
  then show ?thesis
    by (cases "buffer (data v) ! i") (simp_all add: is_live_def)
qed

lemma all_live_writable:
  "all_live v \<Longrightarrow> well_formed v \<Longrightarrow> j < size_m v \<Longrightarrow> writable T (buffer (data v) ! j)"
  using all_live_nth [of v j] by (auto simp: writable_def is_live_def)

lemma Emplace_returns:
  assumes "well_formed v" and "i \<le> size_m v"
    and "size_m v = capacity (data v) \<or> all_live v \<or> is_trivially_destructible T"
  shows "\<exists>v'. Emplace T v (Vector_begin v + i) x = Inr (Vector_begin v' + i, v')
           \<and> Insert T v (Vector_begin v + i) x = Emplace T v (Vector_begin v + i) x
           \<and> Vector_begin v' = (if Size v = Capacity v then fresh (data v) else Vector_begin v)
           \<and> Size v' = Suc (Size v)
           \<and> elements v' = take i (elements v) @ Live x # drop i (elements v)
           \<and> deref v' (Vector_begin v' + i) = Live x"
proof -
  have wr: "size_m v = capacity (data v)
      \<or> (\<forall>j. i \<le> j \<and> j < size_m v \<longrightarrow> writable T (buffer (data v) ! j))"
    using assms(3) all_live_writable [OF _ assms(1), of _ T]
    by (auto simp: writable_def)
  from Emplace_shape [OF assms(1,2), of T x] obtain v' where v':
    "Emplace T v (address (data v) + i) x = Inr (address (data v') + i, v')"
    "size_m v' = Suc (size_m v)" "well_formed v'"
    "address (data v') = (if size_m v = capacity (data v) then fresh (data v) else address (data v))"
    "(size_m v = capacity (data v)
        \<or> (\<forall>j. i \<le> j \<and> j < size_m v \<longrightarrow> writable T (buffer (data v) ! j)))
       \<longrightarrow> elements v' = take i (elements v) @ Live x # drop i (elements v)"
    by blast
  have el: "elements v' = take i (elements v) @ Live x # drop i (elements v)"
    using v'(5) wr by blast
  have len: "length (elements v) = size_m v"
    using assms(1) by (simp add: elements_def well_formed_def)
  have "elements v' ! i = Live x"
    using assms(2) len by (simp add: el nth_append)
  moreover have "i < size_m v'" "size_m v' \<le> length (buffer (data v'))"
    using v'(2,3) assms(2) by (simp_all add: well_formed_def)
  ultimately have d: "deref v' (Vector_begin v' + i) = Live x"
    by (simp add: deref_def Vector_begin_def GetAddress_def slot_index_def slot_at_def elements_def)
  show ?thesis
    using v'(1,2,4) el d
    by (intro exI [of _ v'])
      (simp add: Insert_def Vector_begin_def GetAddress_def Size_def Capacity_def
        RawMemory_Capacity_def)
qed

lemma EmplaceBack_returns:
  assumes "well_formed v"
  shows "\<exists>v'. EmplaceBack T v x = Inr (Vector_end v' - 1, v')
           \<and> Vector_begin v' = (if Size v = Capacity v then fresh (data v) else Vector_begin v)
           \<and> Size v' = Suc (Size v)
           \<and> elements v' = elements v @ [Live x]
           \<and> deref v' (Vector_end v' - 1) = Live x"
proof -
  from Emplace_shape [OF assms order_refl, of T x] obtain v' where v':
    "Emplace T v (address (data v) + size_m v) x = Inr (address (data v') + size_m v, v')"
    "size_m v' = Suc (size_m v)" "well_formed v'"
    "address (data v') = (if size_m v = capacity (data v) then fresh (data v) else address (data v))"
    "(size_m v = capacity (data v)
        \<or> (\<forall>j. size_m v \<le> j \<and> j < size_m v \<longrightarrow> writable T (buffer (data v) ! j)))
       \<longrightarrow> elements v' = take (size_m v) (elements v) @ Live x # drop (size_m v) (elements v)"
    by blast
  have len: "length (elements v) = size_m v"
    using assms by (simp add: elements_def well_formed_def)
  have "\<forall>j. size_m v \<le> j \<and> j < size_m v \<longrightarrow> writable T (buffer (data v) ! j)"
    by auto
  then have "elements v' = take (size_m v) (elements v) @ Live x # drop (size_m v) (elements v)"
    using v'(5) by blast
  then have el: "elements v' = elements v @ [Live x]"
    using len by simp
  have "elements v' ! size_m v = Live x"
    using len by (simp add: el nth_append)
  moreover have "size_m v < size_m v'" "size_m v' \<le> length (buffer (data v'))"
    using v'(2,3) by (simp_all add: well_formed_def)
  ultimately have d: "deref v' (address (data v') + size_m v) = Live x"
    by (simp add: deref_def slot_index_def slot_at_def elements_def)
  show ?thesis
    using v'(1,2,4) el d
    by (intro exI [of _ v'])
      (simp add: EmplaceBack_def Vector_end_def Vector_begin_def GetAddress_def Size_def
        Capacity_def RawMemory_Capacity_def)
qed

section \<open>The properties of the specification\<close>

subsection \<open>Copy assignment\<close>

text \<open>
  C1. Copy assignment where the right-hand side fits the capacity: \<open>a\<close> should end up
  with exactly the elements of \<open>b\<close>. The growing branch does not do that.
  \<^verbatim>\<open>operator=\<close> declares \<^verbatim>\<open>size_t i = 0\<close> and never advances it, so the tail copy
  \<^verbatim>\<open>uninitialized_copy_n(rhs.begin() + i, rhs.size_ - size_, begin() + i)\<close> starts at
  the front of both blocks instead of at the old size. With \<open>a\<close> of size 1 and capacity
  4 holding \<open>1\<close>, and \<open>b\<close> holding \<open>7, 8\<close>, the assignment \<open>a = b\<close> sets the size of \<open>a\<close> to
  2, writes \<open>7\<close> into slot 0 twice and leaves slot 1 without an element.
\<close>

theorem copy_assign_growing_in_place:
  "\<exists>a b. and_then (PushBack int_type Vector_default 1) (\<lambda>v. Inr (Reserve int_type v 4)) = Inr a
     \<and> and_then (PushBack int_type Vector_default 7) (\<lambda>v. PushBack int_type v 8) = Inr b
     \<and> Size b \<le> Capacity a
     \<and> elements a = [Live 1] \<and> elements b = [Live 7, Live 8]
     \<and> Size (copy_assign ((\<lambda>x. Vector_default)(0 := a, 1 := b)) 0 1 0) = 2
     \<and> elements (copy_assign ((\<lambda>x. Vector_default)(0 := a, 1 := b)) 0 1 0) = [Live 7, Raw]"
proof -
  let ?a = "\<lparr>data = \<lparr>buffer = [Live 1, Raw, Raw, Raw], capacity = 4, address = 3, block_bytes = 16, slot_bytes = 4\<rparr>, size_m = 1\<rparr> :: int Vector"
  let ?b = "\<lparr>data = \<lparr>buffer = [Live 7, Live 8], capacity = 2, address = 3, block_bytes = 8, slot_bytes = 4\<rparr>, size_m = 2\<rparr> :: int Vector"
  have 1: "and_then (PushBack int_type Vector_default 1) (\<lambda>v. Inr (Reserve int_type v 4)) = Inr ?a"
    by code_simp
  have 2: "and_then (PushBack int_type Vector_default 7) (\<lambda>v. PushBack int_type v 8) = Inr ?b"
    by code_simp
  have 3: "Size ?b \<le> Capacity ?a \<and> elements ?a = [Live 1] \<and> elements ?b = [Live 7, Live 8]"
    by code_simp
  have 4: "Size (copy_assign ((\<lambda>x. Vector_default)(0 := ?a, 1 := ?b)) 0 1 0) = 2"
    by code_simp
  have 5: "elements (copy_assign ((\<lambda>x. Vector_default)(0 := ?a, 1 := ?b)) 0 1 0) = [Live 7, Raw]"
    by code_simp
  show ?thesis
    using 1 2 3 4 5 by blast
qed

text \<open>
  C9. Copy assignment of a vector to itself changes nothing: for every store and every
  address, the store after \<open>a = a\<close> is the store before.
\<close>

theorem copy_assign_self: "copy_assign s a a = s"
  by (simp add: copy_assign_def)

subsection \<open>Move construction\<close>


subsection \<open>Checked access\<close>

text \<open>
  C5. \<^verbatim>\<open>At\<close> throws \<^verbatim>\<open>std::out_of_range\<close> exactly when the index is not below the size
  and otherwise returns a reference to the slot of that index (lemma \<open>At_bounds\<close>, for
  every well-formed vector, which every reachable vector is). The slot should hold a
  live element. It need not: after the copy assignment described at C1 the vector \<open>a\<close>
  of size 2 has no element in slot 1, and \<open>At(1)\<close> succeeds and returns a reference to
  that slot.
\<close>

theorem At_returns_dead_slot:
  "let s1 = (\<lambda>a. Vector_default)(0 := Vector_sized int_type 1);
       s2 = s1(0 := Reserve int_type (s1 0) 3);
       s3 = s2(1 := Vector_sized int_type 2);
       s4 = copy_assign s3 0 1
   in reachable int_type s4 \<and> well_formed (s4 0) \<and> elements (s4 1) = [Live 0, Live 0]
      \<and> 1 < Size (s4 0)
      \<and> At (s4 0) 1 = Inr (Vector_begin (s4 0) + 1)
      \<and> deref (s4 0) (Vector_begin (s4 0) + 1) = Raw"
  unfolding Let_def
  apply (intro conjI)
  subgoal
    by (rule reachable.assign_copy, rule reachable.construct_sized, rule reachable.reserve,
        rule reachable.construct_sized, rule reachable.start)
  subgoal by code_simp
  subgoal by code_simp
  subgoal by code_simp
  subgoal by code_simp
  subgoal by code_simp
  done

subsection \<open>A scenario\<close>

text \<open>
  C2. From an empty vector of \<open>int\<close>: pushing 1, 2, 3 gives size 3, capacity 4 and the
  sequence 1, 2, 3; inserting 9 at position 1 gives 1, 9, 2, 3 and size 4; erasing at
  position 0 gives 9, 2, 3 and size 3; resizing to 1 gives the sequence 9, size 1 and
  still capacity 4.
\<close>

theorem scenario_trace:
  "\<exists>v3 v4 v5 p q.
     and_then (PushBack int_type Vector_default 1)
       (\<lambda>v1. and_then (PushBack int_type v1 2) (\<lambda>v2. PushBack int_type v2 3)) = Inr v3
     \<and> Size v3 = 3 \<and> Capacity v3 = 4 \<and> elements v3 = [Live 1, Live 2, Live 3]
     \<and> Insert int_type v3 (Vector_begin v3 + 1) 9 = Inr (p, v4)
     \<and> elements v4 = [Live 1, Live 9, Live 2, Live 3] \<and> Size v4 = 4
     \<and> Erase int_type v4 (Vector_begin v4 + 0) = Inr (q, v5)
     \<and> elements v5 = [Live 9, Live 2, Live 3] \<and> Size v5 = 3
     \<and> elements (Resize int_type v5 1) = [Live 9]
     \<and> Size (Resize int_type v5 1) = 1 \<and> Capacity (Resize int_type v5 1) = 4"
proof -
  let ?v3 = "\<lparr>data = \<lparr>buffer = [Live 1, Live 2, Live 3, Raw], capacity = 4, address = 6, block_bytes = 16, slot_bytes = 4\<rparr>, size_m = 3\<rparr> :: int Vector"
  let ?v4 = "\<lparr>data = \<lparr>buffer = [Live 1, Live 9, Live 2, Live 3], capacity = 4, address = 6, block_bytes = 16, slot_bytes = 4\<rparr>, size_m = 4\<rparr> :: int Vector"
  let ?v5 = "\<lparr>data = \<lparr>buffer = [Live 9, Live 2, Live 3, Live 3], capacity = 4, address = 6, block_bytes = 16, slot_bytes = 4\<rparr>, size_m = 3\<rparr> :: int Vector"
  have 1: "and_then (PushBack int_type Vector_default 1)
       (\<lambda>v1. and_then (PushBack int_type v1 2) (\<lambda>v2. PushBack int_type v2 3)) = Inr ?v3"
    by code_simp
  have 2: "Insert int_type ?v3 (Vector_begin ?v3 + 1) 9 = Inr (7, ?v4)"
    by code_simp
  have 3: "Erase int_type ?v4 (Vector_begin ?v4 + 0) = Inr (6, ?v5)"
    by code_simp
  have 4: "Resize int_type ?v5 1 = 
     \<lparr>data = \<lparr>buffer = [Live 9, Raw, Raw, Live 3], capacity = 4, address = 6, block_bytes = 16, slot_bytes = 4\<rparr>, size_m = 1\<rparr>"
    by code_simp
  show ?thesis
    apply (rule exI [of _ ?v3], rule exI [of _ ?v4], rule exI [of _ ?v5])
    apply (rule exI [of _ 7], rule exI [of _ 6])
    apply (simp only: 1 2 3 4)
    apply (simp add: vec_defs raw_defs)
    done
qed

subsection \<open>The invariant on reachable stores\<close>

text \<open>
  C8. Every vector of a reachable store should have its size within its capacity and
  live elements in all slots below its size. The second part fails, by the defect of
  the copy assignment described at C1: after constructing \<open>a\<close> with one element,
  reserving 3 slots, resizing \<open>b\<close> to two elements and assigning \<open>a = b\<close>, the vector
  \<open>a\<close> has size 2 within capacity 3, and its slot 1 holds no element.
\<close>

theorem reachable_with_dead_slot:
  "let s1 = (\<lambda>a. Vector_default)(0 := Vector_sized int_type 1);
       s2 = s1(0 := Reserve int_type (s1 0) 3);
       s3 = s2(1 := Resize int_type (s2 1) 2);
       s4 = copy_assign s3 0 1
   in reachable int_type s4 \<and> Size (s4 0) = 2 \<and> Capacity (s4 0) = 3
      \<and> elements (s4 0) = [Live 0, Raw] \<and> \<not> all_live (s4 0)"
  unfolding Let_def
  apply (intro conjI)
  subgoal
    by (rule reachable.assign_copy, rule reachable.resize, rule reachable.reserve,
        rule reachable.construct_sized, rule reachable.start)
  subgoal by code_simp
  subgoal by code_simp
  subgoal by code_simp
  subgoal by code_simp
  done

subsection \<open>Growth by doubling\<close>

text \<open>
  C3. After \<open>K \<ge> 1\<close> end-insertions into an empty vector the size is \<open>K\<close> and the
  capacity is the least power of two that is at least \<open>K\<close>: it is \<open>2 ^ n\<close>, at least
  \<open>K\<close>, and no smaller exponent reaches \<open>K\<close>. Every reallocation of an insertion takes
  the capacity from 0 to 1 and from any other value to its double, and an
  end-insertion reallocates exactly when the size equals the capacity.
\<close>

theorem doubling_growth:
  "(xs \<noteq> [] \<longrightarrow>
      (\<exists>v n. push_all T Vector_default xs = Inr v
         \<and> Size v = length xs \<and> elements v = map Live xs
         \<and> Capacity v = 2 ^ n \<and> length xs \<le> 2 ^ n \<and> (\<forall>m. length xs \<le> 2 ^ m \<longrightarrow> n \<le> m)))
   \<and> (\<forall>w index x w'. EmplaceWithReallocation T w index x = Inr w' \<longrightarrow>
         Capacity w' = (if Capacity w = 0 then 1 else Capacity w * 2))
   \<and> (\<forall>w x w'. well_formed w \<and> PushBack T w x = Inr w' \<longrightarrow>
         Capacity w' = (if Size w = Capacity w then (if Capacity w = 0 then 1 else Capacity w * 2)
                        else Capacity w))"
proof (intro conjI impI allI)
  assume ne: "xs \<noteq> []"
  have d0: "doubled (Vector_default :: 'a Vector)"
    by (simp add: doubled_def well_formed_def Vector_default_def RawMemory_default_def)
  from push_all_doubled [OF d0, of T xs] obtain v where v:
    "push_all T Vector_default xs = Inr v" "size_m v = length xs" "doubled v"
    "elements v = map Live xs"
    by (auto simp: Vector_default_def elements_def RawMemory_default_def)
  from v(2,3) ne obtain n where n: "capacity (data v) = 2 ^ n" "capacity (data v) < 2 * length xs"
    by (auto simp: doubled_def)
  have le: "length xs \<le> 2 ^ n"
    using v(2,3) n(1) by (simp add: doubled_def well_formed_def)
  have "\<forall>m. length xs \<le> 2 ^ m \<longrightarrow> n \<le> m"
    using least_power [OF n] by blast
  then show "\<exists>v n. push_all T Vector_default xs = Inr v
         \<and> Size v = length xs \<and> elements v = map Live xs
         \<and> Capacity v = 2 ^ n \<and> length xs \<le> 2 ^ n \<and> (\<forall>m. length xs \<le> 2 ^ m \<longrightarrow> n \<le> m)"
    using v n(1) le by (auto simp: Size_def Capacity_def RawMemory_Capacity_def)
next
  fix w :: "'a Vector" and index x w'
  assume "EmplaceWithReallocation T w index x = Inr w'"
  then show "Capacity w' = (if Capacity w = 0 then 1 else Capacity w * 2)"
    by (auto simp: EmplaceWithReallocation_def Let_def and_then_def split_def raw_defs Capacity_def
        split: sum.splits if_splits)
next
  fix w :: "'a Vector" and x w'
  assume "well_formed w \<and> PushBack T w x = Inr w'"
  then show "Capacity w' = (if Size w = Capacity w then (if Capacity w = 0 then 1 else Capacity w * 2)
                        else Capacity w)"
    using PushBack_result [of w T x]
    by (auto simp: Size_def Capacity_def RawMemory_Capacity_def)
qed

theorem doubling_growth_witness:
  "[1, 2, 3, 4, 5 :: int] \<noteq> []
   \<and> (\<exists>v. push_all int_type Vector_default [1, 2, 3, 4, 5] = Inr v
         \<and> Size v = 5 \<and> Capacity v = 8
         \<and> elements v = [Live 1, Live 2, Live 3, Live 4, Live 5])"
proof -
  have ne: "[1, 2, 3, 4, 5 :: int] \<noteq> []" by simp
  from doubling_growth [of "[1, 2, 3, 4, 5 :: int]" int_type] ne
  obtain v n where v: "push_all int_type Vector_default [1, 2, 3, 4, 5] = Inr v"
    "Size v = length [1, 2, 3, 4, 5 :: int]" "elements v = map Live [1, 2, 3, 4, 5]"
    "Capacity v = 2 ^ n" "length [1, 2, 3, 4, 5 :: int] \<le> 2 ^ n"
    "\<forall>m. length [1, 2, 3, 4, 5 :: int] \<le> 2 ^ m \<longrightarrow> n \<le> m"
    by blast
  have "n \<le> 3"
    using v(6) by simp
  moreover have "n \<noteq> 0" "n \<noteq> 1" "n \<noteq> 2"
    using v(5) by (intro notI, simp)+
  ultimately have "n = 3" by arith
  then have "Capacity v = 8"
    using v(4) by simp
  then show ?thesis
    using v(1-3) by simp
qed

subsection \<open>Erase\<close>

text \<open>
  C4. \<^verbatim>\<open>Erase\<close> should leave the sequence without the element at the position, the
  later elements one slot down. The code first destroys the object at the position,
  then calls \<^verbatim>\<open>std::move(pos + 1, end(), pos)\<close>, whose first step move-assigns to the
  slot that holds no object any more, and it never destroys the object in the old
  last slot, which the last step leaves moved-from. With \<^verbatim>\<open>int\<close> nothing shows (lemma
  \<open>Erase_result\<close>). With \<^verbatim>\<open>std::string\<close>, erasing the first of \<open>a, b, c\<close> gives size 2, no
  object in slot 0 where \<open>b\<close> should be, and a moved-from string that stays alive
  behind the new end.
\<close>

theorem Erase_string_loses_element:
  "\<exists>v p v'. push_all string_type Vector_default [''a'', ''b'', ''c''] = Inr v
     \<and> elements v = [Live ''a'', Live ''b'', Live ''c'']
     \<and> Erase string_type v (Vector_begin v) = Inr (p, v')
     \<and> Size v' = 2
     \<and> elements v' = [Raw, Live ''c'']
     \<and> deref v' (Vector_end v') = Live []"
proof -
  let ?v = "\<lparr>data = \<lparr>buffer = [Live ''a'', Live ''b'', Live ''c'', Raw], capacity = 4,
               address = 6, block_bytes = 128, slot_bytes = 32\<rparr>, size_m = 3\<rparr>"
  let ?v' = "\<lparr>data = \<lparr>buffer = [Raw, Live ''c'', Live [], Raw], capacity = 4,
               address = 6, block_bytes = 128, slot_bytes = 32\<rparr>, size_m = 2\<rparr>"
  have 1: "push_all string_type Vector_default [''a'', ''b'', ''c''] = Inr ?v"
    by code_simp
  have 2: "elements ?v = [Live ''a'', Live ''b'', Live ''c'']"
    by code_simp
  have 3: "Erase string_type ?v (Vector_begin ?v) = Inr (6, ?v')"
    by code_simp
  have 4: "Size ?v' = 2" "elements ?v' = [Raw, Live ''c'']" "deref ?v' (Vector_end ?v') = Live []"
    by code_simp+
  show ?thesis
    using 1 2 3 4 by blast
qed

subsection \<open>Reserve\<close>




subsection \<open>What the insertions return\<close>

text \<open>
  C10. \<^verbatim>\<open>Emplace\<close>, and \<^verbatim>\<open>Insert\<close> which forwards to it, should return an iterator to
  the inserted element: \<open>begin() + (p - begin())\<close> in the array after the call, with the
  inserted value behind it. The address is the right one on both paths, and the slot
  holds the value whenever the slots from the position on hold their objects (lemmas
  \<open>Emplace_shape\<close>, \<open>Emplace_returns\<close>, \<open>EmplaceBack_returns\<close>). On the vector that the
  copy assignment described at C1 leaves, with \<^verbatim>\<open>std::string\<close> elements, it is not:
  slot 1 of \<open>a\<close> holds no object, \<^verbatim>\<open>Emplace\<close> at position 1 without reallocation
  assigns the new value to that slot, and the iterator it returns points to a slot
  that still holds no object. On \<open>b\<close>, which is full and whose elements are live, the
  same call reallocates and returns an iterator into the new block, at the inserted
  string.
\<close>

theorem Emplace_at_dead_slot:
  "let s1 = (\<lambda>a. Vector_default)(0 := Vector_sized string_type 1);
       s2 = s1(0 := Reserve string_type (s1 0) 3);
       s3 = s2(1 := Resize string_type (s2 1) 2);
       s4 = copy_assign s3 0 1
   in reachable string_type s4 \<and> well_formed (s4 0) \<and> Size (s4 0) = 2
      \<and> (\<exists>v'. Emplace string_type (s4 0) (Vector_begin (s4 0) + 1) ''x''
                  = Inr (Vector_begin v' + 1, v')
             \<and> Size v' = 3
             \<and> deref v' (Vector_begin v' + 1) = Raw)
      \<and> (\<exists>w. Emplace string_type (s4 1) (Vector_begin (s4 1) + 1) ''x''
                  = Inr (Vector_begin w + 1, w)
             \<and> Vector_begin w \<noteq> Vector_begin (s4 1)
             \<and> elements w = [Live [], Live ''x'', Live []]
             \<and> deref w (Vector_begin w + 1) = Live ''x'')"
  unfolding Let_def
  apply (intro conjI)
  subgoal
    by (rule reachable.assign_copy, rule reachable.resize, rule reachable.reserve,
        rule reachable.construct_sized, rule reachable.start)
  subgoal by code_simp
  subgoal by code_simp
  subgoal
    apply (rule exI [of _ "\<lparr>data = \<lparr>buffer = [Live [], Raw, Raw], capacity = 3, address = 3,
                 block_bytes = 96, slot_bytes = 32\<rparr>, size_m = 3\<rparr>"])
    apply (intro conjI)
    subgoal by code_simp
    subgoal by code_simp
    subgoal by code_simp
    done
  subgoal
    apply (rule exI [of _ "\<lparr>data = \<lparr>buffer = [Live [], Live ''x'', Live [], Raw], capacity = 4,
                 address = 4, block_bytes = 128, slot_bytes = 32\<rparr>, size_m = 3\<rparr>"])
    apply (intro conjI)
    subgoal by code_simp
    subgoal by code_simp
    subgoal by code_simp
    subgoal by code_simp
    done
  done

end
